theory Spec2Isabelle
  imports Main "HOL-Library.Word"
begin

unbundle bit_operations_syntax

section \<open>The grammar tree of the PEG compiler (peg.go)\<close>

text \<open>
  The Go source keeps grammar nodes behind the interface \<open>Node\<close>; the concrete
  carriers are \<open>rule\<close>, \<open>name\<close>, \<open>token\<close>, \<open>action\<close> and \<open>nodeList\<close>.  The
  model is one datatype with one constructor per carrier, plus \<open>GoNil\<close> for the nil
  interface value (an unset stack slot, an unset \<open>rule.expression\<close>).
\<close>

datatype Type =
    TypeUnknown | TypeRule | TypeVariable | TypeName | TypeDot | TypeCharacter
  | TypeString | TypeClass | TypePredicate | TypeCommit | TypeBegin | TypeEnd
  | TypeAction | TypeAlternate | TypeUnorderedAlternate | TypeSequence
  | TypePeekFor | TypePeekNot | TypeQuery | TypeStar | TypePlus | TypeNil | TypeLast

type_synonym characterClass = "8 word list"

text \<open>
  \<open>Rule name id expression hasActions variables\<close>;
  \<open>Name text varp\<close>; \<open>Token type text class\<close>; \<open>Action text id rule\<close>
  (the back reference to the owning rule is kept as the rule's name);
  \<open>List type elements\<close>.
\<close>

datatype node =
    GoNil
  | Rule string int node bool "string list"
  | Name string "string option"
  | Token Type string "characterClass option"
  | Action string int string
  | List Type "node list"

text \<open>
  The ways a run ends without a result: Go's panics, a loop without exit
  (\<open>Diverges\<close>), and \<open>OutOfFuel\<close> for a model function whose recursion is bounded
  by a counter and has used it up (no behaviour of the program).  The panic of an
  index outside the array \<open>t.stack\<close> carries the index: \<open>StackIndexOutOfRange i\<close>;
  \<open>IndexOutOfRange\<close> is the same panic for a string or a slice.
\<close>

datatype error =
    IndexOutOfRange | StackIndexOutOfRange int | TypeAssertion | NilDereference
  | Diverges | OutOfFuel

definition nilNode :: node where
  "nilNode = Token TypeNil ''<nil>'' None"

definition dot :: node where
  "dot = Token TypeDot ''.'' None"

definition commit :: node where
  "commit = Token TypeCommit ''commit'' None"

definition begin_tok :: node where
  "begin_tok = Token TypeBegin ''<'' None"

definition end_tok :: node where
  "end_tok = Token TypeEnd ''>'' None"

fun GetType :: "node \<Rightarrow> Type" where
  "GetType GoNil = TypeUnknown"
| "GetType (Rule n i e h vs) = TypeRule"
| "GetType (Name s v) = TypeName"
| "GetType (Token ty s c) = ty"
| "GetType (Action s i r) = TypeAction"
| "GetType (List ty xs) = ty"

fun node_String :: "node \<Rightarrow> string" where
  "node_String (Rule n i e h vs) = n"
| "node_String (Name s v) = s"
| "node_String (Token ty s c) = s"
| "node_String (Action s i r) = s"
| "node_String _ = []"

text \<open>\<open>rule.GetExpression\<close>: an unset expression reads as the shared \<open>nilNode\<close>.\<close>

fun GetExpression :: "node \<Rightarrow> node" where
  "GetExpression (Rule n i e h vs) = (if e = GoNil then nilNode else e)"
| "GetExpression _ = nilNode"

fun GetId :: "node \<Rightarrow> int" where
  "GetId (Rule n i e h vs) = i"
| "GetId (Action s i r) = i"
| "GetId _ = 0"

fun rule_name :: "node \<Rightarrow> string" where
  "rule_name (Rule n i e h vs) = n"
| "rule_name _ = []"

fun rule_variables :: "node \<Rightarrow> string list" where
  "rule_variables (Rule n i e h vs) = vs"
| "rule_variables _ = []"

fun rule_hasActions :: "node \<Rightarrow> bool" where
  "rule_hasActions (Rule n i e h vs) = h"
| "rule_hasActions _ = False"

section \<open>The Tree and its builder API\<close>

record Tree =
  rules :: "string \<rightharpoonup> node"
  rulesCount :: "string \<rightharpoonup> nat"
  ruleId :: int
  varp :: "string option"
  headers :: "string list"
  trailers :: "string list"
  rule_list :: "node list"
  Actions :: "node list"
  classes :: "string \<rightharpoonup> characterClass"
  defines_map :: "string \<rightharpoonup> string"
  switchExcl :: "string set"
  stack :: "node list"
  stack_top :: int
  inline :: bool
  switch :: bool

definition New :: "bool \<Rightarrow> bool \<Rightarrow> Tree" where
  "New inl sw =
     \<lparr> rules = Map.empty,
       rulesCount = Map.empty,
       ruleId = 0,
       varp = None,
       headers = [],
       trailers = [],
       rule_list = [],
       Actions = [],
       classes = Map.empty,
       defines_map = [''package'' \<mapsto> '''',
                  ''Peg'' \<mapsto> ''yyParser'',
                  ''userstate'' \<mapsto> '''',
                  ''yystype'' \<mapsto> ''yyStype''],
       switchExcl = {},
       stack = replicate 1024 GoNil,
       stack_top = 0,
       inline = inl,
       switch = sw \<rparr>"

text \<open>
  \<open>Define\<close>: the value is stored only when the key is already present in the map
  (\<open>if _, ok := t.defines[name]; ok\<close>).
\<close>

definition Define :: "string \<Rightarrow> string \<Rightarrow> Tree \<Rightarrow> Tree" where
  "Define name text t =
     (case defines_map t name of
        Some old \<Rightarrow> t\<lparr>defines_map := (defines_map t)(name \<mapsto> text)\<rparr>
      | None \<Rightarrow> t)"

definition SwitchExclude :: "string \<Rightarrow> Tree \<Rightarrow> Tree" where
  "SwitchExclude r t = t\<lparr>switchExcl := insert r (switchExcl t)\<rparr>"

section \<open>Character classes\<close>

text \<open>
  \<open>characterClass\<close> is \<open>[32]uint8\<close>: bit \<open>c & 7\<close> of byte \<open>c >> 3\<close> tells whether
  the byte value \<open>c\<close> belongs to the class.  Go strings are byte strings; a byte of a
  string is a \<open>char\<close>, a byte of the bitmap an \<open>8 word\<close>.
\<close>

definition byte_of :: "char \<Rightarrow> 8 word" where
  "byte_of ch = of_nat (of_char ch)"

definition char_of_byte :: "8 word \<Rightarrow> char" where
  "char_of_byte b = char_of (unat b)"

definition new_class :: characterClass where
  "new_class = replicate 32 0"

definition cc_add :: "characterClass \<Rightarrow> 8 word \<Rightarrow> characterClass" where
  "cc_add c character =
     c[unat (drop_bit 3 character) :=
         (c ! unat (drop_bit 3 character)) OR push_bit (unat (character AND 7)) 1]"

definition cc_has :: "characterClass \<Rightarrow> 8 word \<Rightarrow> bool" where
  "cc_has c character =
     ((c ! unat (drop_bit 3 character)) AND push_bit (unat (character AND 7)) 1 \<noteq> 0)"

definition cc_complement :: "characterClass \<Rightarrow> characterClass" where
  "cc_complement c = map (\<lambda>v. NOT v) c"

definition cc_union :: "characterClass \<Rightarrow> characterClass \<Rightarrow> characterClass" where
  "cc_union c class = map (\<lambda>(a, value). a OR value) (zip c class)"

definition cc_intersection :: "characterClass \<Rightarrow> characterClass \<Rightarrow> characterClass" where
  "cc_intersection c class = map (\<lambda>(a, value). a AND value) (zip c class)"

text \<open>\<open>len\<close>: the loop \<open>for character := 0; character < 256; character++\<close>.\<close>

function cc_len_loop :: "characterClass \<Rightarrow> nat \<Rightarrow> nat \<Rightarrow> nat" where
  "cc_len_loop c character len =
     (if character < 256
      then cc_len_loop c (character + 1)
             (if cc_has c (of_nat character) then len + 1 else len)
      else len)"
  by pat_completeness auto
termination
  by (relation "measure (\<lambda>(c, character, len). 256 - character)") auto

definition cc_len :: "characterClass \<Rightarrow> nat" where
  "cc_len c = cc_len_loop c 0 0"

text \<open>
  \<open>fmt.Sprintf("%c", c)\<close> writes the code point \<open>c\<close> in UTF-8: one byte below 128,
  two bytes from 128 to 255.
\<close>

definition sprintf_c :: "8 word \<Rightarrow> string" where
  "sprintf_c c =
     (if c < 128 then [char_of_byte c]
      else [char_of_byte (192 OR drop_bit 6 c), char_of_byte (128 OR (c AND 63))])"

definition bslash :: char where
  "bslash = CHR 0x5C"

text \<open>The \<open>escape\<close> closure of \<open>characterClass.String\<close>.\<close>

definition escape :: "8 word \<Rightarrow> string" where
  "escape c =
     (if c = 7 then [bslash, CHR ''a'']
      else if c = 8 then [bslash, CHR ''b'']
      else if c = 12 then [bslash, CHR ''f'']
      else if c = 10 then [bslash, CHR ''n'']
      else if c = 13 then [bslash, CHR ''r'']
      else if c = 9 then [bslash, CHR ''t'']
      else if c = 11 then [bslash, CHR ''v'']
      else if c = 39 then [bslash, CHR 0x27]
      else if c = 34 then [bslash, CHR 0x22]
      else if c = 91 then [bslash, CHR ''['']
      else if c = 93 then [bslash, CHR '']'']
      else if c = 92 then [bslash, bslash]
      else if c = 45 then [bslash, CHR ''-'']
      else sprintf_c c)"

text \<open>
  The loop of \<open>characterClass.String\<close>; \<open>l\<close> counts the members of the run that is
  open at \<open>character\<close>.
\<close>

function cc_String_loop :: "characterClass \<Rightarrow> nat \<Rightarrow> nat \<Rightarrow> string \<Rightarrow> string \<times> nat" where
  "cc_String_loop c character l class =
     (if character < 256
      then (if cc_has c (of_nat character)
            then cc_String_loop c (character + 1) (l + 1)
                   (if l = 0 then class @ escape (of_nat character) else class)
            else cc_String_loop c (character + 1) 0
                   (if l = 2 then class @ escape (of_nat (character - 1))
                    else if l > 2 then class @ ''-'' @ escape (of_nat (character - 1))
                    else class))
      else (class, l))"
  by pat_completeness auto
termination
  by (relation "measure (\<lambda>(c, character, l, class). 256 - character)") auto

definition cc_String :: "characterClass \<Rightarrow> string" where
  "cc_String c =
     (case cc_String_loop c 0 0 [] of
        (class, l) \<Rightarrow> if l \<ge> 2 then class @ ''-'' @ escape 255 else class)"

subsection \<open>The class literal parser of AddClass\<close>

text \<open>The inner \<open>switch last\<close> that decodes an escaped letter.\<close>

definition class_escape :: "8 word \<Rightarrow> 8 word" where
  "class_escape lastb =
     (if lastb = 97 then 7
      else if lastb = 98 then 8
      else if lastb = 102 then 12
      else if lastb = 110 then 10
      else if lastb = 114 then 13
      else if lastb = 116 then 9
      else if lastb = 118 then 11
      else lastb)"

text \<open>
  \<open>for j := last; j <= text[i]; j++ { c.add(j) }\<close> with \<open>j\<close> a \<open>uint8\<close>: the
  increment wraps, so the loop has no exit when the upper end is 255; not returning
  is the value \<open>None\<close>.
\<close>

partial_function (option) add_range ::
  "characterClass \<Rightarrow> 8 word \<Rightarrow> 8 word \<Rightarrow> characterClass option" where
  "add_range c j hi = (if j \<le> hi then add_range (cc_add c j) (j + 1) hi else Some c)"

declare add_range.simps [code]

text \<open>
  The loop \<open>for i := 0; i < len(text)-1; i++\<close>, on the text from index \<open>i\<close> on: it
  runs while at least two bytes remain.
\<close>

fun class_loop :: "string \<Rightarrow> 8 word \<Rightarrow> bool \<Rightarrow> characterClass \<Rightarrow> characterClass option" where
  "class_loop (x # y # rest) lastb hasLast c =
     (if x = CHR ''-'' \<and> hasLast then
        (case add_range c lastb (byte_of y) of
           None \<Rightarrow> None
         | Some c' \<Rightarrow> class_loop rest lastb False c')
      else if x = bslash then
        (let last' = class_escape (byte_of y)
         in class_loop rest last' True (cc_add c last'))
      else class_loop (y # rest) (byte_of x) True (cc_add c (byte_of x)))"
| "class_loop text lastb hasLast c = Some c"

text \<open>
  The body of \<open>AddClass\<close> that resolves a class text seen for the first time.
  \<open>text[0]\<close> and \<open>text[len(text)-1]\<close> panic on an empty text.
\<close>

definition parse_class :: "string \<Rightarrow> error + characterClass" where
  "parse_class text0 =
     (case text0 of
        [] \<Rightarrow> Inl IndexOutOfRange
      | x # xs \<Rightarrow>
          (let inverse = (x = CHR ''^'');
               text = (if inverse then xs else text0)
           in case class_loop text 0 False new_class of
                None \<Rightarrow> Inl Diverges
              | Some c \<Rightarrow>
                  (if text = [] then Inl IndexOutOfRange
                   else (let c' = cc_add c (byte_of (last text))
                         in Inr (if inverse then cc_complement c' else c')))))"

subsection \<open>Builder operations\<close>

text \<open>
  \<open>push\<close> and \<open>pop\<close> index the array \<open>stack [1024]Node\<close> without a check of their
  own; Go's run time panics on an index outside \<open>0..1023\<close>.
\<close>

definition push :: "node \<Rightarrow> Tree \<Rightarrow> error + Tree" where
  "push n t =
     (let top' = stack_top t + 1
      in if 0 \<le> top' \<and> top' < 1024
         then Inr (t\<lparr>stack_top := top', stack := (stack t)[nat top' := n]\<rparr>)
         else Inl (StackIndexOutOfRange top'))"

definition pop :: "Tree \<Rightarrow> error + (node \<times> Tree)" where
  "pop t =
     (if 0 \<le> stack_top t \<and> stack_top t < 1024
      then Inr (stack t ! nat (stack_top t), t\<lparr>stack_top := stack_top t - 1\<rparr>)
      else Inl (StackIndexOutOfRange (stack_top t)))"

definition currentRule :: "Tree \<Rightarrow> error + node" where
  "currentRule t =
     (case stack t ! 1 of
        Rule n i e h vs \<Rightarrow> Inr (Rule n i e h vs)
      | _ \<Rightarrow> Inl TypeAssertion)"

definition AddRule :: "string \<Rightarrow> Tree \<Rightarrow> error + Tree" where
  "AddRule name t =
     (case push (Rule name (ruleId t) GoNil False []) t of
        Inl e \<Rightarrow> Inl e
      | Inr t' \<Rightarrow> Inr (t'\<lparr>ruleId := ruleId t' + 1\<rparr>))"

definition AddExpression :: "Tree \<Rightarrow> error + Tree" where
  "AddExpression t =
     (case pop t of
        Inl e \<Rightarrow> Inl e
      | Inr (expression, t1) \<Rightarrow>
          (case pop t1 of
             Inl e \<Rightarrow> Inl e
           | Inr (r, t2) \<Rightarrow>
               (case r of
                  Rule n i e h vs \<Rightarrow>
                    Inr (t2\<lparr>rule_list := rule_list t2 @ [Rule n i expression h vs]\<rparr>)
                | _ \<Rightarrow> Inl TypeAssertion)))"

definition AddHeader :: "string \<Rightarrow> Tree \<Rightarrow> Tree" where
  "AddHeader text t = t\<lparr>headers := headers t @ [text]\<rparr>"

definition AddTrailer :: "string \<Rightarrow> Tree \<Rightarrow> Tree" where
  "AddTrailer text t = t\<lparr>trailers := trailers t @ [text]\<rparr>"

definition AddVariable :: "string \<Rightarrow> Tree \<Rightarrow> error + Tree" where
  "AddVariable text t =
     (case currentRule t of
        Inl e \<Rightarrow> Inl e
      | Inr r \<Rightarrow>
          (case r of
             Rule n i e h vs \<Rightarrow>
               Inr (t\<lparr>stack := (stack t)[1 := Rule n i e h (if text \<in> set vs then vs else vs @ [text])],
                      varp := Some text\<rparr>)
           | _ \<Rightarrow> Inl TypeAssertion))"

definition AddName :: "string \<Rightarrow> Tree \<Rightarrow> error + Tree" where
  "AddName text t =
     (case push (Name text (varp t)) (t\<lparr>rules := (rules t)(text \<mapsto> Rule [] 0 GoNil False [])\<rparr>) of
        Inl e \<Rightarrow> Inl e
      | Inr t' \<Rightarrow> Inr (t'\<lparr>varp := None\<rparr>))"

definition AddDot :: "Tree \<Rightarrow> error + Tree" where
  "AddDot t = push dot t"

definition AddString :: "string \<Rightarrow> Tree \<Rightarrow> error + Tree" where
  "AddString text t =
     (if length text = 1 \<or> (length text = 2 \<and> text ! 0 = bslash)
      then push (Token TypeCharacter text None) t
      else push (Token TypeString text None) t)"

definition AddClass :: "string \<Rightarrow> Tree \<Rightarrow> error + Tree" where
  "AddClass text t =
     (case push (Token TypeClass text None) t of
        Inl e \<Rightarrow> Inl e
      | Inr t' \<Rightarrow>
          (case classes t' text of
             Some c \<Rightarrow> Inr t'
           | None \<Rightarrow>
               (case parse_class text of
                  Inl e \<Rightarrow> Inl e
                | Inr c \<Rightarrow> Inr (t'\<lparr>classes := (classes t')(text \<mapsto> c)\<rparr>))))"

definition AddPredicate :: "string \<Rightarrow> Tree \<Rightarrow> error + Tree" where
  "AddPredicate text t = push (Token TypePredicate text None) t"

definition AddCommit :: "Tree \<Rightarrow> error + Tree" where
  "AddCommit t = push commit t"

definition AddBegin :: "Tree \<Rightarrow> error + Tree" where
  "AddBegin t = push begin_tok t"

definition AddEnd :: "Tree \<Rightarrow> error + Tree" where
  "AddEnd t = push end_tok t"

definition AddNil :: "Tree \<Rightarrow> error + Tree" where
  "AddNil t = push nilNode t"

text \<open>The loop of \<open>AddAction\<close> that rewrites \<open>$$\<close> to \<open>yy\<close>.\<close>

fun dollars :: "string \<Rightarrow> string" where
  "dollars (x # y # rest) =
     (if x = CHR ''$'' \<and> y = CHR ''$''
      then CHR ''y'' # dollars (CHR ''y'' # rest)
      else x # dollars (y # rest))"
| "dollars b = b"

definition AddAction :: "string \<Rightarrow> Tree \<Rightarrow> error + Tree" where
  "AddAction text t =
     (case currentRule t of
        Inl e \<Rightarrow> Inl e
      | Inr r \<Rightarrow>
          (case r of
             Rule n i e h vs \<Rightarrow>
               (let a = Action (dollars text) (int (length (Actions t))) n
                in push a (t\<lparr>stack := (stack t)[1 := Rule n i e True vs],
                             Actions := Actions t @ [a]\<rparr>))
           | _ \<Rightarrow> Inl TypeAssertion))"

definition addList :: "Type \<Rightarrow> Tree \<Rightarrow> error + Tree" where
  "addList listType t =
     (case pop t of
        Inl e \<Rightarrow> Inl e
      | Inr (a, t1) \<Rightarrow>
          (case pop t1 of
             Inl e \<Rightarrow> Inl e
           | Inr (b, t2) \<Rightarrow>
               (case b of
                  GoNil \<Rightarrow> Inl NilDereference
                | List ty xs \<Rightarrow>
                    (if ty = listType then push (List ty (xs @ [a])) t2
                     else push (List listType [b, a]) t2)
                | _ \<Rightarrow>
                    (if GetType b = listType then Inl TypeAssertion
                     else push (List listType [b, a]) t2))))"

definition addFix :: "Type \<Rightarrow> Tree \<Rightarrow> error + Tree" where
  "addFix fixType t =
     (case pop t of
        Inl e \<Rightarrow> Inl e
      | Inr (x, t1) \<Rightarrow> push (List fixType [x]) t1)"

text \<open>A call of the builder API, and a sequence of calls; a panic ends the run.\<close>

datatype call =
    CAddRule string | CAddExpression | CAddHeader string | CAddTrailer string
  | CAddVariable string | CAddName string | CAddDot | CAddString string
  | CAddClass string | CAddPredicate string | CAddCommit | CAddBegin | CAddEnd
  | CAddNil | CAddAction string | CDefine string string | CSwitchExclude string
  | CAddAlternate | CAddSequence | CAddPeekFor | CAddPeekNot | CAddQuery
  | CAddStar | CAddPlus

fun apply_call :: "call \<Rightarrow> Tree \<Rightarrow> error + Tree" where
  "apply_call (CAddRule n) t = AddRule n t"
| "apply_call CAddExpression t = AddExpression t"
| "apply_call (CAddHeader s) t = Inr (AddHeader s t)"
| "apply_call (CAddTrailer s) t = Inr (AddTrailer s t)"
| "apply_call (CAddVariable s) t = AddVariable s t"
| "apply_call (CAddName s) t = AddName s t"
| "apply_call CAddDot t = AddDot t"
| "apply_call (CAddString s) t = AddString s t"
| "apply_call (CAddClass s) t = AddClass s t"
| "apply_call (CAddPredicate s) t = AddPredicate s t"
| "apply_call CAddCommit t = AddCommit t"
| "apply_call CAddBegin t = AddBegin t"
| "apply_call CAddEnd t = AddEnd t"
| "apply_call CAddNil t = AddNil t"
| "apply_call (CAddAction s) t = AddAction s t"
| "apply_call (CDefine k v) t = Inr (Define k v t)"
| "apply_call (CSwitchExclude r) t = Inr (SwitchExclude r t)"
| "apply_call CAddAlternate t = addList TypeAlternate t"
| "apply_call CAddSequence t = addList TypeSequence t"
| "apply_call CAddPeekFor t = addFix TypePeekFor t"
| "apply_call CAddPeekNot t = addFix TypePeekNot t"
| "apply_call CAddQuery t = addFix TypeQuery t"
| "apply_call CAddStar t = addFix TypeStar t"
| "apply_call CAddPlus t = addFix TypePlus t"

fun run_calls :: "call list \<Rightarrow> Tree \<Rightarrow> error + Tree" where
  "run_calls [] t = Inr t"
| "run_calls (c # cs) t =
     (case apply_call c t of Inl e \<Rightarrow> Inl e | Inr t' \<Rightarrow> run_calls cs t')"

section \<open>Compile: the text emitted ahead of the rules\<close>

definition nl :: string where
  "nl = [CHR 0x0A]"

definition tabs :: "nat \<Rightarrow> string" where
  "tabs n = replicate n (CHR 0x09)"

definition sq :: string where
  "sq = [CHR 0x27]"



text \<open>The verb \<open>%d\<close>.\<close>

fun show_nat :: "nat \<Rightarrow> string" where
  "show_nat n =
     (if n < 10 then [char_of (48 + n)]
      else show_nat (n div 10) @ [char_of (48 + n mod 10)])"

declare show_nat.simps [simp del]

definition show_int :: "int \<Rightarrow> string" where
  "show_int i = (if i < 0 then CHR ''-'' # show_nat (nat (- i)) else show_nat (nat i))"








subsection \<open>The width of the action field of a thunk\<close>

text \<open>\<open>for length := len(t.Actions); length != 0; length >>= 1 { bits++ }\<close>\<close>

fun bits_loop :: "nat \<Rightarrow> nat \<Rightarrow> nat" where
  "bits_loop len bits = (if len \<noteq> 0 then bits_loop (len div 2) (bits + 1) else bits)"

declare bits_loop.simps [simp del]

definition thunk_bits :: "nat \<Rightarrow> nat" where
  "thunk_bits nactions =
     (let bits = bits_loop nactions 0
      in if bits < 8 then 8
         else if bits < 16 then 16
         else if bits < 32 then 32
         else if bits < 64 then 64
         else bits)"

definition thunk_decl :: "nat \<Rightarrow> string" where
  "thunk_decl bits =
     concat
      [nl,
       tabs 1 @ ''var thunkPosition, begin, end int'' @ nl,
       tabs 1 @ ''thunks := make([]struct {action uint'' @ show_nat bits @ ''; begin, end int}, 32)'' @ nl,
       tabs 1 @ ''doarg := func(action uint'' @ show_nat bits @ '', arg int) {'' @ nl,
       tabs 2 @ ''if thunkPosition == len(thunks) {'' @ nl,
       tabs 3 @ ''newThunks := make([]struct {action uint'' @ show_nat bits @ ''; begin, end int}, 2 * len(thunks))'' @ nl,
       tabs 3 @ ''copy(newThunks, thunks)'' @ nl,
       tabs 3 @ ''thunks = newThunks'' @ nl,
       tabs 2 @ ''}'' @ nl,
       tabs 2 @ ''thunks[thunkPosition].action = action'' @ nl,
       tabs 2 @ ''if arg != 0 {'' @ nl,
       tabs 3 @ ''thunks[thunkPosition].begin = arg // use begin to store an argument'' @ nl,
       tabs 2 @ ''} else {'' @ nl,
       tabs 3 @ ''thunks[thunkPosition].begin = begin'' @ nl,
       tabs 2 @ ''}'' @ nl,
       tabs 2 @ ''thunks[thunkPosition].end = end'' @ nl,
       tabs 2 @ ''thunkPosition++'' @ nl,
       tabs 1 @ ''}'' @ nl,
       tabs 1 @ ''do := func(action uint'' @ show_nat bits @ '') {'' @ nl,
       tabs 2 @ ''doarg(action, 0)'' @ nl,
       tabs 1 @ ''}'']"

text \<open>The thunk declarations are printed when \<open>t.Actions != nil\<close>.\<close>

definition print_thunks :: "Tree \<Rightarrow> string" where
  "print_thunks t =
     (if Actions t \<noteq> [] then thunk_decl (thunk_bits (length (Actions t))) else [])"

subsection \<open>The stack accesses of the builder calls\<close>







subsection \<open>Directive names\<close>

text \<open>The keys that \<open>New\<close> puts into the directive map.\<close>

definition directive_names :: "string set" where
  "directive_names = {''package'', ''Peg'', ''userstate'', ''yystype''}"


section \<open>The writer and its labels\<close>

text \<open>
  \<open>writer\<close> embeds the output sink; \<open>out\<close> is the text written to it so far.
  \<open>saveFlags\<close> holds one pair \<open>(pos, thPos)\<close> per label id.
\<close>

record writer =
  out :: string
  indent :: int
  hasCommit :: bool
  nLabels :: int
  dryRun :: bool
  savedIndent :: int
  saveFlags :: "(bool \<times> bool) list"

text \<open>
  A \<open>label\<close> carries a pointer to the writer it was made by; the operations on a
  label therefore take and return the writer as well.
\<close>

record label =
  lid :: int
  sid :: int
  used :: bool
  savedBlockOpen :: bool

definition newWriter :: writer where
  "newWriter =
     \<lparr> out = [], indent = 2, hasCommit = False, nLabels = 0, dryRun = False,
       savedIndent = 0, saveFlags = [] \<rparr>"

text \<open>\<open>lnPrint\<close>; the argument is the text that the format and its arguments give.\<close>

definition lnPrint :: "string \<Rightarrow> writer \<Rightarrow> writer" where
  "lnPrint text w =
     (if dryRun w then w
      else w\<lparr>out := out w @ nl @ tabs (nat (indent w)) @ text\<rparr>)"

definition w_begin :: "writer \<Rightarrow> writer" where
  "w_begin w = (let w1 = lnPrint ''{'' w in w1\<lparr>indent := indent w1 + 1\<rparr>)"

definition w_end :: "writer \<Rightarrow> writer" where
  "w_end w = lnPrint ''}'' (w\<lparr>indent := indent w - 1\<rparr>)"

definition setDry :: "bool \<Rightarrow> writer \<Rightarrow> writer" where
  "setDry on w =
     (let w1 = w\<lparr>dryRun := on\<rparr>
      in if on then w1\<lparr>savedIndent := indent w1\<rparr>
         else w1\<lparr>indent := savedIndent w1, nLabels := 0\<rparr>)"

definition newLabel :: "writer \<Rightarrow> label \<times> writer" where
  "newLabel w =
     (let i = nLabels w;
          w1 = w\<lparr>nLabels := nLabels w + 1\<rparr>;
          w2 = (if dryRun w1 then w1\<lparr>saveFlags := saveFlags w1 @ [(False, False)]\<rparr> else w1)
      in (\<lparr> lid = i, sid = i, used = False, savedBlockOpen = False \<rparr>, w2))"

definition label_label :: "label \<Rightarrow> writer \<Rightarrow> writer" where
  "label_label l w =
     (let w1 = w\<lparr>indent := indent w - 1\<rparr>;
          w2 = lnPrint (''l'' @ show_int (lid l) @ '':'') w1
      in w2\<lparr>indent := indent w2 + 1\<rparr>)"

definition jump :: "label \<Rightarrow> writer \<Rightarrow> label \<times> writer" where
  "jump l w = (l\<lparr>used := True\<rparr>, lnPrint (''goto l'' @ show_int (lid l)) w)"

text \<open>\<open>w.saveFlags[w.id]\<close>: Go panics on an index outside the slice.\<close>

definition flags_at :: "writer \<Rightarrow> int \<Rightarrow> error + (bool \<times> bool)" where
  "flags_at w i =
     (if 0 \<le> i \<and> nat i < length (saveFlags w) then Inr (saveFlags w ! nat i)
      else Inl IndexOutOfRange)"

definition save :: "label \<Rightarrow> writer \<Rightarrow> error + writer" where
  "save l w =
     (case flags_at w (lid l) of
        Inl e \<Rightarrow> Inl e
      | Inr (pos, thPos) \<Rightarrow>
          Inr (if pos \<and> thPos then
                 lnPrint (''position'' @ show_int (sid l) @ '', thunkPosition'' @ show_int (sid l)
                          @ '' := position, thunkPosition'') w
               else if \<not> pos \<and> thPos then
                 lnPrint (''thunkPosition'' @ show_int (sid l) @ '' := thunkPosition'') w
               else if pos then
                 lnPrint (''position'' @ show_int (sid l) @ '' := position'') w
               else w))"

definition saveBlock :: "label \<Rightarrow> writer \<Rightarrow> error + (label \<times> writer)" where
  "saveBlock l w =
     (case flags_at w (lid l) of
        Inl e \<Rightarrow> Inl e
      | Inr (pos, thPos) \<Rightarrow>
          (if pos \<or> thPos then
             (case save l (w_begin w) of
                Inl e \<Rightarrow> Inl e
              | Inr w1 \<Rightarrow> Inr (l\<lparr>savedBlockOpen := True\<rparr>, w1))
           else Inr (l, w)))"

definition unsafe :: "label \<Rightarrow> writer \<Rightarrow> error + bool" where
  "unsafe l w =
     (case flags_at w (lid l) of
        Inl e \<Rightarrow> Inl e
      | Inr (pos, thPos) \<Rightarrow> Inr (pos \<or> thPos))"

text \<open>
  \<open>lrestore\<close>: the receiver is \<open>l\<close>; \<open>other\<close> is the label argument (\<open>None\<close> for
  nil), of which only \<open>used\<close> and \<open>id\<close> are read.
\<close>

definition lrestore ::
  "label \<Rightarrow> label option \<Rightarrow> bool \<Rightarrow> bool \<Rightarrow> writer \<Rightarrow> error + (label \<times> writer)" where
  "lrestore l other savePos saveThPos w =
     (let w1 = (case other of
                  None \<Rightarrow> w
                | Some lab \<Rightarrow> if used lab then label_label lab w else w);
          w2 = (if savePos \<and> saveThPos then
                  lnPrint (''position, thunkPosition = position'' @ show_int (sid l)
                           @ '', thunkPosition'' @ show_int (sid l)) w1
                else if \<not> savePos \<and> saveThPos then
                  lnPrint (''thunkPosition = thunkPosition'' @ show_int (sid l)) w1
                else if savePos then
                  lnPrint (''position = position'' @ show_int (sid l)) w1
                else w1)
      in case (if dryRun w2 then
                 (case flags_at w2 (lid l) of
                    Inl e \<Rightarrow> Inl e
                  | Inr (pos, thPos) \<Rightarrow>
                      Inr (w2\<lparr>saveFlags := (saveFlags w2)
                             [nat (lid l) := (if \<not> pos then savePos else pos,
                                             if \<not> thPos then saveThPos else thPos)]\<rparr>))
               else Inr w2) of
           Inl e \<Rightarrow> Inl e
         | Inr w3 \<Rightarrow>
             (if savedBlockOpen l then Inr (l\<lparr>savedBlockOpen := False\<rparr>, w_end w3)
              else Inr (l, w3)))"

definition restore :: "label \<Rightarrow> bool \<Rightarrow> bool \<Rightarrow> writer \<Rightarrow> error + (label \<times> writer)" where
  "restore l savePos saveThPos w = lrestore l (Some l) savePos saveThPos w"

text \<open>
  \<open>cJump\<close>; \<open>text\<close> is the formatted condition.  \<open>fmt.Fprint(w, " {")\<close> writes to
  the sink directly.
\<close>

definition cJump :: "label \<Rightarrow> bool \<Rightarrow> string \<Rightarrow> writer \<Rightarrow> label \<times> writer" where
  "cJump l jumpIfTrue text w =
     (let l1 = l\<lparr>used := True\<rparr>
      in if dryRun w then (l1, w)
         else (let format = (if jumpIfTrue then ''if '' @ text else ''if !'' @ text);
                   w1 = lnPrint format w;
                   w2 = w1\<lparr>out := out w1 @ '' {''\<rparr>;
                   w3 = lnPrint (tabs 1 @ ''goto l'' @ show_int (lid l)) w2
               in (l1, lnPrint ''}'' w3)))"

subsection \<open>Traces of emission operations\<close>

text \<open>
  One emission operation on the writer and the labels made so far: \<open>lnPrint\<close>, or
  \<open>cJump\<close>, \<open>save\<close>, \<open>restore\<close> on the label at position \<open>i\<close>.
\<close>

inductive emit_step :: "writer \<times> label list \<Rightarrow> writer \<times> label list \<Rightarrow> bool" where
  step_lnPrint: "emit_step (w, ls) (lnPrint text w, ls)"
| step_cJump:
    "i < length ls \<Longrightarrow> cJump (ls ! i) b text w = (l', w') \<Longrightarrow>
     emit_step (w, ls) (w', ls[i := l'])"
| step_save:
    "i < length ls \<Longrightarrow> save (ls ! i) w = Inr w' \<Longrightarrow> emit_step (w, ls) (w', ls)"
| step_restore:
    "i < length ls \<Longrightarrow> restore (ls ! i) savePos saveThPos w = Inr (l', w') \<Longrightarrow>
     emit_step (w, ls) (w', ls[i := l'])"

text \<open>Flags only ever go from false to true.\<close>

definition flags_le :: "(bool \<times> bool) list \<Rightarrow> (bool \<times> bool) list \<Rightarrow> bool" where
  "flags_le fs gs =
     (length gs = length fs \<and>
      (\<forall>i < length fs. (fst (fs ! i) \<longrightarrow> fst (gs ! i)) \<and> (snd (fs ! i) \<longrightarrow> snd (gs ! i))))"

text \<open>Labels that differ at most in a \<open>used\<close> mark that was set.\<close>

definition labels_marked :: "label list \<Rightarrow> label list \<Rightarrow> bool" where
  "labels_marked ls ls' =
     (length ls' = length ls \<and>
      (\<forall>i < length ls. lid (ls' ! i) = lid (ls ! i) \<and> sid (ls' ! i) = sid (ls ! i) \<and>
          savedBlockOpen (ls' ! i) = savedBlockOpen (ls ! i) \<and>
          (used (ls ! i) \<longrightarrow> used (ls' ! i))))"

section \<open>Alternate optimization: the rewrite into an unordered list\<close>

text \<open>
  A \<open>*characterClass\<close> as \<open>optimizeAlternates\<close> handles it: nil, the shared
  \<open>emptyString\<close> marker (compared by identity), or a class of its own.
\<close>

datatype classRef = NilClass | EmptyString | ClassVal characterClass

fun class_bits :: "classRef \<Rightarrow> characterClass option" where
  "class_bits NilClass = None"
| "class_bits EmptyString = Some new_class"
| "class_bits (ClassVal c) = Some c"

text \<open>
  The entry that the rewrite makes for a branch outside every intersection:
  \<open>Sequence(PeekFor(Class), branch)\<close>, the class token printed by \<open>String\<close>.
\<close>

definition wrap_branch :: "node \<Rightarrow> characterClass \<Rightarrow> node" where
  "wrap_branch e bits =
     List TypeSequence
       [List TypePeekFor [Token TypeClass (cc_String bits) (Some bits)], e]"

text \<open>
  The loop over the branches (\<open>properties[c]\<close> is the head of the second list; an
  index past the end of \<open>properties\<close> panics).  \<open>unordered.PushBack\<close> appends,
  \<open>unordered.PushFront\<close> prepends.
\<close>

fun rewrite_loop ::
  "node list \<Rightarrow> (bool \<times> classRef) list \<Rightarrow> node list \<Rightarrow> node list \<Rightarrow> nat
   \<Rightarrow> error + (node list \<times> node list)" where
  "rewrite_loop [] ps unordered ordered mx = Inr (unordered, ordered)"
| "rewrite_loop (e # es) [] unordered ordered mx = Inl IndexOutOfRange"
| "rewrite_loop (e # es) ((intersects, cl) # ps) unordered ordered mx =
     (if intersects then rewrite_loop es ps unordered (ordered @ [e]) mx
      else (case class_bits cl of
              None \<Rightarrow> Inl NilDereference
            | Some bits \<Rightarrow>
                (let sequence = wrap_branch e bits;
                     len = cc_len bits
                 in if GetType e = TypeNil
                    then rewrite_loop es ps (unordered @ [sequence]) ordered mx
                    else if len > mx
                    then rewrite_loop es ps (unordered @ [sequence]) ordered len
                    else rewrite_loop es ps (sequence # unordered) ordered mx)))"

text \<open>
  The whole rewrite of an alternate with the given branches: a pure
  \<open>UnorderedAlternate\<close> when no ordered branch is left, else the ordered branches
  followed by the unordered list.
\<close>

definition rewrite_alternate :: "node list \<Rightarrow> (bool \<times> classRef) list \<Rightarrow> error + node" where
  "rewrite_alternate es ps =
     (case rewrite_loop es ps [] [] 0 of
        Inl e \<Rightarrow> Inl e
      | Inr (unordered, ordered) \<Rightarrow>
          (if length ordered = 0 then Inr (List TypeUnorderedAlternate unordered)
           else Inr (List TypeAlternate (ordered @ [List TypeUnorderedAlternate unordered]))))"

subsection \<open>The order of the unordered list, in words\<close>

text \<open>
  A branch with its \<open>intersects\<close> mark and its first-class.  The stated ordering,
  following the specification: the branches resolving to \<open>Nil\<close> at the tail, before
  them the branch with the longest first-class, every other branch pushed at the head
  (so in reverse order).
\<close>

type_synonym branch = "node \<times> bool \<times> characterClass"

definition br_node :: "branch \<Rightarrow> node" where
  "br_node b = fst b"

definition br_len :: "branch \<Rightarrow> nat" where
  "br_len b = cc_len (snd (snd b))"

definition br_wrap :: "branch \<Rightarrow> node" where
  "br_wrap b = wrap_branch (fst b) (snd (snd b))"

definition br_nil :: "branch \<Rightarrow> bool" where
  "br_nil b = (GetType (fst b) = TypeNil)"

definition br_prop :: "branch \<Rightarrow> bool \<times> classRef" where
  "br_prop b = (fst (snd b), ClassVal (snd (snd b)))"

fun first_longest :: "branch list \<Rightarrow> branch option" where
  "first_longest [] = None"
| "first_longest (b # bs) =
     (case first_longest bs of
        None \<Rightarrow> Some b
      | Some m \<Rightarrow> if br_len m > br_len b then Some m else Some b)"

definition spec_unordered :: "branch list \<Rightarrow> node list" where
  "spec_unordered bs =
     (let free = filter (\<lambda>b. \<not> fst (snd b)) bs;
          nils = filter br_nil free;
          others = filter (\<lambda>b. \<not> br_nil b) free
      in case first_longest others of
           None \<Rightarrow> map br_wrap nils
         | Some m \<Rightarrow> rev (map br_wrap (remove1 m others)) @ [br_wrap m] @ map br_wrap nils)"

text \<open>
  The ordering as the code has it.  A branch outside every intersection goes to the
  tail when it resolves to \<open>Nil\<close>, or when its first-class is not empty and strictly
  longer than that of every earlier such branch that is not \<open>Nil\<close>; it goes to the
  head otherwise.  \<open>pre\<close> holds the earlier branches.
\<close>

definition to_tail :: "branch list \<Rightarrow> branch \<Rightarrow> bool" where
  "to_tail pre b =
     (br_nil b \<or>
      (0 < br_len b \<and>
       (\<forall>p \<in> set pre. \<not> fst (snd p) \<and> \<not> br_nil p \<longrightarrow> br_len p < br_len b)))"

fun tail_part :: "branch list \<Rightarrow> branch list \<Rightarrow> branch list" where
  "tail_part pre [] = []"
| "tail_part pre (b # bs) =
     (if \<not> fst (snd b) \<and> to_tail pre b then [b] else []) @ tail_part (pre @ [b]) bs"

fun head_part :: "branch list \<Rightarrow> branch list \<Rightarrow> branch list" where
  "head_part pre [] = []"
| "head_part pre (b # bs) =
     (if \<not> fst (snd b) \<and> \<not> to_tail pre b then [b] else []) @ head_part (pre @ [b]) bs"

section \<open>Compile: the left-recursion pass\<close>

definition recursion_msg :: "string \<Rightarrow> string" where
  "recursion_msg name =
     ''possible infinite left recursion in rule '' @ sq @ name @ sq @ nl"

text \<open>How many rules are not marked in \<open>ruleReached\<close>.\<close>

definition unreached :: "bool list \<Rightarrow> nat" where
  "unreached reached = length (filter (\<lambda>b. \<not> b) reached)"

lemma unreached_mark:
  "i < length reached \<Longrightarrow> \<not> reached ! i \<Longrightarrow> unreached (reached[i := True]) < unreached reached"
proof (induction reached arbitrary: i)
  case Nil
  then show ?case by simp
next
  case (Cons b bs)
  then show ?case by (cases i) (auto simp: unreached_def)
qed

text \<open>
  \<open>checkRecursion\<close> returns whether the node consumes input; the model returns with
  it the diagnostics written to the error stream, in order.  \<open>ruleReached[id]\<close> is
  set before the expression of a rule is entered and cleared after: the callee sees
  the marks of the rules on the path to it, so the marks are passed down.  The case
  \<open>TypeName\<close> calls \<open>checkRecursion(t.rules[name])\<close>: the model enters the rule
  found in the map right there.  The loops over the elements of an alternate and of a
  sequence are \<open>checkAlternate\<close> and \<open>checkSequence\<close>.
\<close>

function (sequential)
  checkRecursion :: "(string \<rightharpoonup> node) \<Rightarrow> bool list \<Rightarrow> node \<Rightarrow> error + (bool \<times> string list)"
  and checkAlternate :: "(string \<rightharpoonup> node) \<Rightarrow> bool list \<Rightarrow> node list \<Rightarrow> error + (bool \<times> string list)"
  and checkSequence :: "(string \<rightharpoonup> node) \<Rightarrow> bool list \<Rightarrow> node list \<Rightarrow> error + (bool \<times> string list)"
where
  "checkRecursion rs reached GoNil = Inl NilDereference"
| "checkRecursion rs reached (Rule n i e h vs) =
     (if \<not> (0 \<le> i \<and> nat i < length reached) then Inl IndexOutOfRange
      else if reached ! nat i then Inr (False, [recursion_msg n])
      else checkRecursion rs (reached[nat i := True]) (if e = GoNil then nilNode else e))"
| "checkRecursion rs reached (Name s v) =
     (case rs s of
        Some (Rule n i e h vs) \<Rightarrow>
          (if \<not> (0 \<le> i \<and> nat i < length reached) then Inl IndexOutOfRange
           else if reached ! nat i then Inr (False, [recursion_msg n])
           else checkRecursion rs (reached[nat i := True]) (if e = GoNil then nilNode else e))
      | _ \<Rightarrow> Inl NilDereference)"
| "checkRecursion rs reached (Token ty s c) =
     (if ty = TypeCharacter \<or> ty = TypeString then Inr (length s > 0, [])
      else if ty = TypeDot \<or> ty = TypeClass then Inr (True, [])
      else Inr (False, []))"
| "checkRecursion rs reached (Action s i r) = Inr (False, [])"
| "checkRecursion rs reached (List ty xs) =
     (if ty = TypeAlternate then checkAlternate rs reached xs
      else if ty = TypeSequence then checkSequence rs reached xs
      else if ty = TypePlus then
        (case xs of [] \<Rightarrow> Inl NilDereference | x # rest \<Rightarrow> checkRecursion rs reached x)
      else Inr (False, []))"
| "checkAlternate rs reached [] = Inr (True, [])"
| "checkAlternate rs reached (x # xs) =
     (case checkRecursion rs reached x of
        Inl err \<Rightarrow> Inl err
      | Inr (consumes, d) \<Rightarrow>
          (if \<not> consumes then Inr (False, d)
           else (case checkAlternate rs reached xs of
                   Inl err \<Rightarrow> Inl err
                 | Inr (r, d') \<Rightarrow> Inr (r, d @ d'))))"
| "checkSequence rs reached [] = Inr (False, [])"
| "checkSequence rs reached (x # xs) =
     (case checkRecursion rs reached x of
        Inl err \<Rightarrow> Inl err
      | Inr (consumes, d) \<Rightarrow>
          (if consumes then Inr (True, d)
           else (case checkSequence rs reached xs of
                   Inl err \<Rightarrow> Inl err
                 | Inr (r, d') \<Rightarrow> Inr (r, d @ d'))))"
  by pat_completeness auto

termination
  apply (relation "inv_image (less_than <*lex*> less_than)
      (\<lambda>x. case x of
          Inl (rs, reached, n) \<Rightarrow> (unreached reached, size n)
        | Inr (Inl (rs, reached, xs)) \<Rightarrow> (unreached reached, size_list size xs)
        | Inr (Inr (rs, reached, xs)) \<Rightarrow> (unreached reached, size_list size xs))")
  apply (auto simp: unreached_mark)
  done

text \<open>
  The pass: \<open>ruleReached := make([]bool, len(t.rules))\<close>, then \<open>checkRecursion\<close> on
  every rule of the map.  Go leaves the order of a map's keys open; \<open>ks\<close> is the
  order taken.
\<close>

fun check_rules :: "(string \<rightharpoonup> node) \<Rightarrow> bool list \<Rightarrow> string list \<Rightarrow> error + string list" where
  "check_rules rs reached [] = Inr []"
| "check_rules rs reached (k # ks) =
     (case rs k of
        None \<Rightarrow> Inl NilDereference
      | Some r \<Rightarrow>
          (case checkRecursion rs reached r of
             Inl err \<Rightarrow> Inl err
           | Inr (consumes, d) \<Rightarrow>
               (case check_rules rs reached ks of
                  Inl err \<Rightarrow> Inl err
                | Inr d' \<Rightarrow> Inr (d @ d'))))"

definition recursion_pass :: "(string \<rightharpoonup> node) \<Rightarrow> string list \<Rightarrow> error + string list" where
  "recursion_pass rs ks = check_rules rs (replicate (length ks) False) ks"

subsection \<open>Rules that start with themselves\<close>

text \<open>
  The rule that an expression starts with: the name itself, the first element of a
  sequence, the first branch of an alternate, the operand of \<open>+\<close>.
\<close>

fun first_name :: "node \<Rightarrow> string option" where
  "first_name (Name s v) = Some s"
| "first_name (List ty (x # xs)) =
     (if ty = TypeSequence \<or> ty = TypeAlternate \<or> ty = TypePlus then first_name x else None)"
| "first_name n = None"

text \<open>\<open>A = B \<alpha>\<close>: the definition of \<open>A\<close> starts with the rule \<open>B\<close>.\<close>

definition starts_with :: "(string \<rightharpoonup> node) \<Rightarrow> string \<Rightarrow> string \<Rightarrow> bool" where
  "starts_with rs a b = (\<exists>r. rs a = Some r \<and> first_name (GetExpression r) = Some b)"

text \<open>
  A rule that comes back to itself through first positions only: each rule on the
  way starts with the next.  (A rule may also come back to itself through a later
  branch of an alternate or a later element of a sequence; this is not covered
  here.)
\<close>

definition first_recursive :: "(string \<rightharpoonup> node) \<Rightarrow> string \<Rightarrow> bool" where
  "first_recursive rs r = (starts_with rs)\<^sup>+\<^sup>+ r r"

text \<open>
  Expressions on which \<open>checkRecursion\<close> meets no nil: no nil node, an operand
  under \<open>+\<close>, every name in the rules map.
\<close>

fun wf_node :: "(string \<rightharpoonup> node) \<Rightarrow> node \<Rightarrow> bool" where
  "wf_node rs GoNil = False"
| "wf_node rs (Rule n i e h vs) = False"
| "wf_node rs (Name s v) = (s \<in> dom rs)"
| "wf_node rs (Token ty s c) = True"
| "wf_node rs (Action s i r) = True"
| "wf_node rs (List ty xs) = ((ty = TypePlus \<longrightarrow> xs \<noteq> []) \<and> (\<forall>x \<in> set xs. wf_node rs x))"

text \<open>
  The rules map as \<open>Compile\<close> has it when the passes start: under each key a rule
  of that name, ids distinct and below \<open>len(t.rules)\<close>, expressions as above.
\<close>

definition wf_rules :: "(string \<rightharpoonup> node) \<Rightarrow> string list \<Rightarrow> bool" where
  "wf_rules rs ks =
     (distinct ks \<and> set ks = dom rs \<and>
      (\<forall>k \<in> set ks. \<exists>i e h vs. rs k = Some (Rule k i e h vs) \<and>
          0 \<le> i \<and> nat i < length ks \<and> (e \<noteq> GoNil \<longrightarrow> wf_node rs e)) \<and>
      (\<forall>a \<in> set ks. \<forall>b \<in> set ks. GetId (the (rs a)) = GetId (the (rs b)) \<longrightarrow> a = b))"

text \<open>
  The path that the pass follows from a rule: \<open>hits rs reached a t\<close> when, entering
  rule \<open>a\<close> with the marks \<open>reached\<close> and going from each rule to the rule its
  definition starts with, the first rule met that is already marked is \<open>t\<close>.
\<close>

inductive hits :: "(string \<rightharpoonup> node) \<Rightarrow> bool list \<Rightarrow> string \<Rightarrow> string \<Rightarrow> bool" where
  hit_now:
    "rs a = Some (Rule n i e h vs) \<Longrightarrow> 0 \<le> i \<Longrightarrow> nat i < length reached \<Longrightarrow>
     reached ! nat i \<Longrightarrow> hits rs reached a n"
| hit_later:
    "rs a = Some (Rule n i e h vs) \<Longrightarrow> 0 \<le> i \<Longrightarrow> nat i < length reached \<Longrightarrow>
     \<not> reached ! nat i \<Longrightarrow> first_name (GetExpression (Rule n i e h vs)) = Some b \<Longrightarrow>
     hits rs (reached[nat i := True]) b t \<Longrightarrow> hits rs reached a t"

text \<open>Every rule of the map has an id below \<open>N\<close> and an expression without nil.\<close>

definition wf_env :: "(string \<rightharpoonup> node) \<Rightarrow> nat \<Rightarrow> bool" where
  "wf_env rs N = (\<forall>k r. rs k = Some r \<longrightarrow>
      (\<exists>n i e h vs. r = Rule n i e h vs \<and> 0 \<le> i \<and> nat i < N \<and> (e \<noteq> GoNil \<longrightarrow> wf_node rs e)))"

section \<open>Compile: resolving the rules and emitting the rules table\<close>

text \<open>
  The first loop of \<open>Compile\<close>: every rule of the ordered list is entered in the
  rules map under its name (\<open>t.rules[rule.String()] = rule\<close>), and the variables are
  counted.
\<close>

fun register_rules :: "node list \<Rightarrow> (string \<rightharpoonup> node) \<Rightarrow> (string \<rightharpoonup> node)" where
  "register_rules [] m = m"
| "register_rules (n # ns) m =
     (if GetType n = TypeRule then register_rules ns (m(node_String n \<mapsto> n))
      else register_rules ns m)"

fun count_variables :: "node list \<Rightarrow> nat" where
  "count_variables [] = 0"
| "count_variables (n # ns) =
     (if GetType n = TypeRule then length (rule_variables n) + count_variables ns
      else count_variables ns)"

text \<open>
  The second loop, \<open>for name, r := range t.rules\<close>, in the key order \<open>ks\<close>: an
  entry whose rule has no name (left by \<open>AddName\<close>) gets a rule of that name with the
  next id, which is also appended to the ordered list.
\<close>

fun add_placeholders :: "string list \<Rightarrow> Tree \<Rightarrow> Tree" where
  "add_placeholders [] t = t"
| "add_placeholders (name # ks) t =
     (case rules t name of
        None \<Rightarrow> add_placeholders ks t
      | Some r \<Rightarrow>
          (if rule_name r = []
           then (let r' = Rule name (ruleId t) GoNil False []
                 in add_placeholders ks
                      (t\<lparr>ruleId := ruleId t + 1,
                         rules := (rules t)(name \<mapsto> r'),
                         rule_list := rule_list t @ [r']\<rparr>))
           else add_placeholders ks t))"

definition resolve_rules :: "string list \<Rightarrow> Tree \<Rightarrow> Tree" where
  "resolve_rules ks t =
     add_placeholders ks (t\<lparr>rules := register_rules (rule_list t) (rules t)\<rparr>)"

subsection \<open>The real pass over the rules\<close>














section \<open>Alternate optimization: the whole traversal\<close>

text \<open>
  \<open>optimizeAlternates\<close> returns \<open>(consumes, eof, peek, class)\<close>.  It rewrites
  alternates in place; the model returns the node as it is afterwards, and carries the
  rules map (a rule is changed in place, where the map, under the rule's name, and
  the ordered list both see it) and the cache, one entry \<open>(reached, values)\<close> per
  rule id.
\<close>

type_synonym ores = "bool \<times> bool \<times> bool \<times> classRef"

type_synonym ostate = "(string \<rightharpoonup> node) \<times> (bool \<times> ores) list"

definition ores_zero :: ores where
  "ores_zero = (False, False, False, NilClass)"

definition all_bytes :: characterClass where
  "all_bytes = replicate 32 255"

text \<open>The innermost loop of \<open>compare\<close>: some byte of \<open>b\<close> meets the same byte of \<open>a\<close>.\<close>

definition cc_intersects :: "characterClass \<Rightarrow> characterClass \<Rightarrow> bool" where
  "cc_intersects a b = list_ex (\<lambda>(v, bv). bv AND v \<noteq> 0) (zip a b)"

fun compare_inner :: "classRef \<Rightarrow> classRef list \<Rightarrow> error + bool" where
  "compare_inner a [] = Inr False"
| "compare_inner a (b # rest) =
     (case class_bits a of
        None \<Rightarrow> Inl NilDereference
      | Some av \<Rightarrow>
          (case class_bits b of
             None \<Rightarrow> Inl NilDereference
           | Some bv \<Rightarrow> if cc_intersects av bv then Inr True else compare_inner a rest))"

text \<open>
  The loop \<open>compare\<close> over \<open>properties[0 : len(properties)-1]\<close>: it marks each
  branch that intersects a later one, and counts them.
\<close>

fun compare_props :: "(bool \<times> classRef) list \<Rightarrow> error + ((bool \<times> classRef) list \<times> nat)" where
  "compare_props [] = Inr ([], 0)"
| "compare_props [p] = Inr ([p], 0)"
| "compare_props (p # q # ps) =
     (case compare_inner (snd p) (map snd (q # ps)) of
        Inl e \<Rightarrow> Inl e
      | Inr hit \<Rightarrow>
          (case compare_props (q # ps) of
             Inl e \<Rightarrow> Inl e
           | Inr (ps', k) \<Rightarrow> Inr ((hit, snd p) # ps', (if hit then 1 else 0) + k)))"

text \<open>The first class of a \<open>Character\<close> or \<open>String\<close> token.\<close>

definition literal_class :: "string \<Rightarrow> error + ores" where
  "literal_class s =
     (if s = [] then Inr (True, False, False, EmptyString)
      else if hd s = bslash then
        (if length s < 2 then Inl IndexOutOfRange
         else Inr (True, False, False, ClassVal (cc_add new_class (class_escape (byte_of (s ! 1))))))
      else Inr (True, False, False, ClassVal (cc_add new_class (byte_of (hd s)))))"

text \<open>The loop of the case \<open>TypeSequence\<close> that builds the class from the last prefix element to the first.\<close>

fun sequence_class :: "(bool \<times> classRef) list \<Rightarrow> characterClass \<Rightarrow> characterClass" where
  "sequence_class [] class = class"
| "sequence_class ((pk, cl) # rest) class =
     sequence_class rest
       (case class_bits cl of
          None \<Rightarrow> class
        | Some b \<Rightarrow> if pk then cc_intersection class b else cc_union class b)"

text \<open>
  The traversal, bounded by a counter.  \<open>opt_alternate\<close> is the first loop of the
  case \<open>TypeAlternate\<close> (\<open>c\<close> the index, \<open>n\<close> the number of branches),
  \<open>opt_sequence\<close> the loop of \<open>TypeSequence\<close> up to the first consuming element and
  \<open>opt_rest\<close> the loop over the remaining elements.
\<close>

function (sequential) optimizeAlternates ::
    "nat \<Rightarrow> string set \<Rightarrow> (string \<rightharpoonup> characterClass) \<Rightarrow> node \<Rightarrow> ostate
     \<Rightarrow> error + (ores \<times> node \<times> ostate)"
  and opt_alternate ::
    "nat \<Rightarrow> string set \<Rightarrow> (string \<rightharpoonup> characterClass) \<Rightarrow> node list \<Rightarrow> nat \<Rightarrow> nat
     \<Rightarrow> bool \<times> bool \<times> bool \<Rightarrow> characterClass \<Rightarrow> (bool \<times> classRef) list \<Rightarrow> node list
     \<Rightarrow> ostate
     \<Rightarrow> error + ((bool \<times> bool \<times> bool) \<times> characterClass \<times> (bool \<times> classRef) list
                 \<times> node list \<times> ostate)"
  and opt_sequence ::
    "nat \<Rightarrow> string set \<Rightarrow> (string \<rightharpoonup> characterClass) \<Rightarrow> node list
     \<Rightarrow> bool \<times> bool \<times> bool \<Rightarrow> (bool \<times> classRef) list \<Rightarrow> node list \<Rightarrow> ostate
     \<Rightarrow> error + ((bool \<times> bool \<times> bool) \<times> (bool \<times> classRef) list \<times> node list
                 \<times> node list \<times> ostate)"
  and opt_rest ::
    "nat \<Rightarrow> string set \<Rightarrow> (string \<rightharpoonup> characterClass) \<Rightarrow> node list \<Rightarrow> node list
     \<Rightarrow> ostate \<Rightarrow> error + (node list \<times> ostate)"
where
  "optimizeAlternates 0 excl cls node st = Inl OutOfFuel"
| "optimizeAlternates (Suc f) excl cls GoNil st = Inl NilDereference"
| "optimizeAlternates (Suc f) excl cls (Rule n i e h vs) st =
     (if n \<in> excl then Inr (ores_zero, Rule n i e h vs, st)
      else if \<not> (0 \<le> i \<and> nat i < length (snd st)) then Inl IndexOutOfRange
      else if fst (snd st ! nat i) then Inr (snd (snd st ! nat i), Rule n i e h vs, st)
      else (case optimizeAlternates f excl cls (if e = GoNil then nilNode else e)
                   (fst st, (snd st)[nat i := (True, ores_zero)]) of
              Inl err \<Rightarrow> Inl err
            | Inr (v, e', st') \<Rightarrow>
                (let r' = Rule n i (if e = GoNil then GoNil else e') h vs
                 in Inr (v, r', ((fst st')(n \<mapsto> r'), (snd st')[nat i := (True, v)])))))"
| "optimizeAlternates (Suc f) excl cls (Name s v) st =
     (case fst st s of
        None \<Rightarrow> Inl NilDereference
      | Some r \<Rightarrow>
          (case optimizeAlternates f excl cls r st of
             Inl err \<Rightarrow> Inl err
           | Inr (res, r', st') \<Rightarrow> Inr (res, Name s v, ((fst st')(s \<mapsto> r'), snd st'))))"
| "optimizeAlternates (Suc f) excl cls (Token ty s c) st =
     (if ty = TypeDot then Inr ((True, False, False, ClassVal all_bytes), Token ty s c, st)
      else if ty = TypeString \<or> ty = TypeCharacter then
        (case literal_class s of
           Inl err \<Rightarrow> Inl err
         | Inr res \<Rightarrow> Inr (res, Token ty s c, st))
      else if ty = TypeClass then
        Inr ((True, False, False, (case cls s of None \<Rightarrow> NilClass | Some b \<Rightarrow> ClassVal b)),
             Token ty s c, st)
      else if ty = TypeNil then
        Inr ((False, False, False, ClassVal new_class), Token ty s c, st)
      else Inr (ores_zero, Token ty s c, st))"
| "optimizeAlternates (Suc f) excl cls (Action s i r) st =
     Inr ((False, False, False, ClassVal new_class), Action s i r, st)"
| "optimizeAlternates (Suc f) excl cls (List ty xs) st =
     (if ty = TypeAlternate then
        (case opt_alternate f excl cls xs 0 (length xs) (True, False, True) new_class [] [] st of
           Inl err \<Rightarrow> Inl err
         | Inr ((consumes, eof, peek), class, props, xs', st') \<Rightarrow>
             (if eof then Inr ((consumes, eof, peek, ClassVal class), List ty xs', st')
              else if props = [] then Inl IndexOutOfRange
              else (case compare_props props of
                      Inl err \<Rightarrow> Inl err
                    | Inr (props', k) \<Rightarrow>
                        (if 2 + k < length props'
                         then (case rewrite_alternate xs' props' of
                                 Inl err \<Rightarrow> Inl err
                               | Inr node' \<Rightarrow>
                                   Inr ((consumes, eof, peek, ClassVal class), node', st'))
                         else Inr ((consumes, eof, peek, ClassVal class), List ty xs', st')))))
      else if ty = TypeSequence then
        (case opt_sequence f excl cls xs (False, False, False) [] [] st of
           Inl err \<Rightarrow> Inl err
         | Inr ((consumes, eof, peek), pcs, done, rest, st') \<Rightarrow>
             (case opt_rest f excl cls rest [] st' of
                Inl err \<Rightarrow> Inl err
              | Inr (rest', st'') \<Rightarrow>
                  Inr ((consumes, \<not> consumes \<and> eof, \<not> consumes \<and> peek,
                        ClassVal (sequence_class (rev pcs) new_class)),
                       List ty (done @ rest'), st'')))
      else if ty = TypePeekNot \<or> ty = TypePeekFor \<or> ty = TypeQuery \<or> ty = TypeStar
              \<or> ty = TypePlus then
        (case xs of
           [] \<Rightarrow> Inl NilDereference
         | x # rest \<Rightarrow>
             (case optimizeAlternates f excl cls x st of
                Inl err \<Rightarrow> Inl err
              | Inr ((consumes, eof, peek, class), x', st') \<Rightarrow>
                  (if ty = TypePeekNot then
                     (case class_bits class of
                        None \<Rightarrow> Inl NilDereference
                      | Some b \<Rightarrow>
                          Inr ((False, \<not> eof, True, ClassVal (cc_complement b)),
                               List ty (x' # rest), st'))
                   else if ty = TypePeekFor then
                     Inr ((False, eof, True, class), List ty (x' # rest), st')
                   else if ty = TypePlus then
                     Inr ((consumes, eof, peek, class), List ty (x' # rest), st')
                   else Inr ((False, eof, False, class), List ty (x' # rest), st'))))
      else Inr (ores_zero, List ty xs, st))"
| "opt_alternate f excl cls [] c n flags class props done st =
     Inr (flags, class, props, done, st)"
| "opt_alternate f excl cls (x # xs) c n flags class props done st =
     (case optimizeAlternates f excl cls x st of
        Inl err \<Rightarrow> Inl err
      | Inr ((mconsumes, meof, mpeek, cl), x', st') \<Rightarrow>
          (if c + 1 = n \<and> cl = EmptyString
           then Inr (flags, class, props, done @ x' # xs, st')
           else opt_alternate f excl cls xs (c + 1) n
                  (fst flags \<and> mconsumes, fst (snd flags) \<or> meof, snd (snd flags) \<and> mpeek)
                  (case class_bits cl of None \<Rightarrow> class | Some b \<Rightarrow> cc_union class b)
                  (props @ [(False, cl)]) (done @ [x']) st'))"
| "opt_sequence f excl cls [] flags pcs done st = Inr (flags, pcs, done, [], st)"
| "opt_sequence f excl cls (x # xs) flags pcs done st =
     (if fst flags then Inr (flags, pcs, done, x # xs, st)
      else (case optimizeAlternates f excl cls x st of
              Inl err \<Rightarrow> Inl err
            | Inr ((consumes, meof, mpeek, cl), x', st') \<Rightarrow>
                opt_sequence f excl cls xs
                  (consumes, fst (snd flags) \<or> meof, snd (snd flags) \<or> mpeek)
                  (pcs @ [(mpeek, cl)]) (done @ [x']) st'))"
| "opt_rest f excl cls [] done st = Inr (done, st)"
| "opt_rest f excl cls (x # xs) done st =
     (case optimizeAlternates f excl cls x st of
        Inl err \<Rightarrow> Inl err
      | Inr (res, x', st') \<Rightarrow> opt_rest f excl cls xs (done @ [x']) st')"
  by pat_completeness auto
termination
  apply (relation "inv_image (less_than <*lex*> less_than)
      (\<lambda>x. case x of
          Inl (Inl (f, r)) \<Rightarrow> (f, 0)
        | Inl (Inr (f, excl, cls, xs, r)) \<Rightarrow> (f, Suc (length xs))
        | Inr (Inl (f, excl, cls, xs, r)) \<Rightarrow> (f, Suc (length xs))
        | Inr (Inr (f, excl, cls, xs, r)) \<Rightarrow> (f, Suc (length xs)))")
  apply auto
  done

section \<open>The emitted recognizer\<close>

text \<open>
  What the recognizer that \<open>compile\<close> emits does on a buffer, read construct by
  construct from the code that \<open>compile\<close> prints and from the matchers printed ahead
  of the rules.  The state is \<open>(position, p.Max)\<close>; a construct either falls through
  (\<open>True\<close>) or jumps to its failure label \<open>ko\<close> (\<open>False\<close>).  \<open>None\<close> stands for
  what is left out (predicates, actions, \<open>commit\<close>, \<open>Min\<close>, which only \<open>commit\<close>
  changes), for a panic of the recognizer and for a counter that ran out.
\<close>

type_synonym pstate = "nat \<times> nat"

text \<open>The failure branch of every matcher: \<open>else if position >= p.Max { p.Max = position }\<close>.\<close>

definition match_fail :: "pstate \<Rightarrow> bool \<times> pstate" where
  "match_fail st = (False, (fst st, if fst st \<ge> snd st then fst st else snd st))"

definition matchDot :: "string \<Rightarrow> pstate \<Rightarrow> bool \<times> pstate" where
  "matchDot buf st =
     (if fst st < length buf then (True, (fst st + 1, snd st)) else match_fail st)"

definition matchChar :: "string \<Rightarrow> char \<Rightarrow> pstate \<Rightarrow> bool \<times> pstate" where
  "matchChar buf c st =
     (if fst st < length buf \<and> buf ! fst st = c then (True, (fst st + 1, snd st))
      else match_fail st)"

definition matchString :: "string \<Rightarrow> string \<Rightarrow> pstate \<Rightarrow> bool \<times> pstate" where
  "matchString buf s st =
     (let next = fst st + length s
      in if next \<le> length buf \<and> take (length s) (drop (fst st) buf) = s
         then (True, (next, snd st))
         else match_fail st)"

definition matchClass :: "string \<Rightarrow> characterClass \<Rightarrow> pstate \<Rightarrow> bool \<times> pstate" where
  "matchClass buf class st =
     (if fst st < length buf \<and> cc_has class (byte_of (buf ! fst st))
      then (True, (fst st + 1, snd st))
      else match_fail st)"

text \<open>The byte that the character literal printed for a \<open>Character\<close> token denotes.\<close>

definition char_of_token :: "string \<Rightarrow> char option" where
  "char_of_token s =
     (case s of
        [c] \<Rightarrow> Some c
      | [b, c] \<Rightarrow> if b = bslash then Some (char_of_byte (class_escape (byte_of c))) else None
      | _ \<Rightarrow> None)"

text \<open>
  \<open>run\<close> follows \<open>compile\<close>; \<open>run_alternate\<close> the branches of an alternate
  (\<open>saved\<close> is the position saved for the label \<open>ok\<close>), \<open>run_sequence\<close> the
  elements of a sequence, \<open>run_star\<close> the loop \<open>again:\<close> of \<open>*\<close> and \<open>+\<close>,
  \<open>run_switch\<close> the cases of the switch of an unordered alternate on the byte at the
  position, the last entry being the \<open>default\<close>.  A rule called by name restores the
  position when it fails.
\<close>

function (sequential)
    run :: "nat \<Rightarrow> (string \<rightharpoonup> node) \<Rightarrow> (string \<rightharpoonup> characterClass) \<Rightarrow> string \<Rightarrow> node
            \<Rightarrow> pstate \<Rightarrow> (bool \<times> pstate) option"
  and run_alternate ::
      "nat \<Rightarrow> (string \<rightharpoonup> node) \<Rightarrow> (string \<rightharpoonup> characterClass) \<Rightarrow> string \<Rightarrow> node list
       \<Rightarrow> nat \<Rightarrow> pstate \<Rightarrow> (bool \<times> pstate) option"
  and run_sequence ::
      "nat \<Rightarrow> (string \<rightharpoonup> node) \<Rightarrow> (string \<rightharpoonup> characterClass) \<Rightarrow> string \<Rightarrow> node list
       \<Rightarrow> pstate \<Rightarrow> (bool \<times> pstate) option"
  and run_star ::
      "nat \<Rightarrow> (string \<rightharpoonup> node) \<Rightarrow> (string \<rightharpoonup> characterClass) \<Rightarrow> string \<Rightarrow> node
       \<Rightarrow> pstate \<Rightarrow> (bool \<times> pstate) option"
  and run_switch ::
      "nat \<Rightarrow> (string \<rightharpoonup> node) \<Rightarrow> (string \<rightharpoonup> characterClass) \<Rightarrow> string \<Rightarrow> node list
       \<Rightarrow> pstate \<Rightarrow> (bool \<times> pstate) option"
where
  "run 0 rs cls buf node st = None"
| "run (Suc f) rs cls buf (Name s v) st =
     (case rs s of
        Some (Rule n i e h vs) \<Rightarrow>
          (if e = GoNil \<or> e = nilNode then None
           else (case run f rs cls buf e st of
                   None \<Rightarrow> None
                 | Some (ok, st') \<Rightarrow> Some (if ok then (True, st') else (False, (fst st, snd st')))))
      | _ \<Rightarrow> None)"
| "run (Suc f) rs cls buf (Token ty s c) st =
     (if ty = TypeDot then Some (matchDot buf st)
      else if ty = TypeCharacter then
        (case char_of_token s of None \<Rightarrow> None | Some ch \<Rightarrow> Some (matchChar buf ch st))
      else if ty = TypeString then
        (if s = [] then Some (fst st < length buf, st) else Some (matchString buf s st))
      else if ty = TypeClass then
        (case cls s of None \<Rightarrow> None | Some class \<Rightarrow> Some (matchClass buf class st))
      else if ty = TypeNil then Some (True, st)
      else None)"
| "run (Suc f) rs cls buf (List ty xs) st =
     (if ty = TypeAlternate then run_alternate f rs cls buf xs (fst st) st
      else if ty = TypeUnorderedAlternate then
        (if fst st = length buf then Some (False, st) else run_switch f rs cls buf xs st)
      else if ty = TypeSequence then run_sequence f rs cls buf xs st
      else (case xs of
              [] \<Rightarrow> None
            | x # rest \<Rightarrow>
                (if ty = TypePeekFor then
                   (case x of
                      Token TypeDot s c \<Rightarrow> Some (fst st < length buf, st)
                    | Token TypeCharacter s c \<Rightarrow>
                        (case char_of_token s of
                           None \<Rightarrow> None
                         | Some ch \<Rightarrow> Some (fst st < length buf \<and> buf ! fst st = ch, st))
                    | Token TypePredicate s c \<Rightarrow> None
                    | _ \<Rightarrow>
                        (case run f rs cls buf x st of
                           None \<Rightarrow> None
                         | Some (ok, st') \<Rightarrow>
                             Some (if ok then (True, (fst st, snd st')) else (False, st'))))
                 else if ty = TypePeekNot then
                   (case x of
                      Token TypeDot s c \<Rightarrow> Some (\<not> fst st < length buf, st)
                    | Token TypeCharacter s c \<Rightarrow>
                        (case char_of_token s of
                           None \<Rightarrow> None
                         | Some ch \<Rightarrow> Some (\<not> (fst st < length buf \<and> buf ! fst st = ch), st))
                    | Token TypePredicate s c \<Rightarrow> None
                    | _ \<Rightarrow>
                        (case run f rs cls buf x st of
                           None \<Rightarrow> None
                         | Some (ok, st') \<Rightarrow>
                             Some (if ok then (False, st') else (True, (fst st, snd st')))))
                 else if ty = TypeQuery then
                   (case run f rs cls buf x st of
                      None \<Rightarrow> None
                    | Some (ok, st') \<Rightarrow> Some (True, if ok then st' else (fst st, snd st')))
                 else if ty = TypeStar then run_star f rs cls buf x st
                 else if ty = TypePlus then
                   (case run f rs cls buf x st of
                      None \<Rightarrow> None
                    | Some (ok, st') \<Rightarrow>
                        if ok then run_star f rs cls buf x st' else Some (False, st'))
                 else None)))"
| "run (Suc f) rs cls buf node st = None"
| "run_alternate 0 rs cls buf xs saved st = None"
| "run_alternate (Suc f) rs cls buf [] saved st = None"
| "run_alternate (Suc f) rs cls buf [x] saved st = run f rs cls buf x st"
| "run_alternate (Suc f) rs cls buf (x # y # ys) saved st =
     (case run f rs cls buf x st of
        None \<Rightarrow> None
      | Some (ok, st') \<Rightarrow>
          if ok then Some (True, st')
          else run_alternate f rs cls buf (y # ys) saved (saved, snd st'))"
| "run_sequence 0 rs cls buf xs st = None"
| "run_sequence (Suc f) rs cls buf [] st = Some (True, st)"
| "run_sequence (Suc f) rs cls buf (x # xs) st =
     (case run f rs cls buf x st of
        None \<Rightarrow> None
      | Some (ok, st') \<Rightarrow> if ok then run_sequence f rs cls buf xs st' else Some (False, st'))"
| "run_star 0 rs cls buf x st = None"
| "run_star (Suc f) rs cls buf x st =
     (case run f rs cls buf x st of
        None \<Rightarrow> None
      | Some (ok, st') \<Rightarrow>
          if ok then run_star f rs cls buf x st' else Some (True, (fst st, snd st')))"
| "run_switch 0 rs cls buf xs st = None"
| "run_switch (Suc f) rs cls buf [] st = None"
| "run_switch (Suc f) rs cls buf [List ty [p, body]] st = run f rs cls buf body st"
| "run_switch (Suc f) rs cls buf
       (List ty [List ty' [Token ty'' s (Some class)], body] # y # ys) st =
     (if cc_has class (byte_of (buf ! fst st)) then run f rs cls buf body st
      else run_switch f rs cls buf (y # ys) st)"
| "run_switch (Suc f) rs cls buf xs st = None"
  by pat_completeness auto
termination
  apply (relation "measure
      (\<lambda>x. case x of
          Inl (Inl (f, r)) \<Rightarrow> f
        | Inl (Inr (f, r)) \<Rightarrow> f
        | Inr (Inl (f, r)) \<Rightarrow> f
        | Inr (Inr (Inl (f, r))) \<Rightarrow> f
        | Inr (Inr (Inr (f, r))) \<Rightarrow> f)")
  apply auto
  done

text \<open>\<open>Parse(ruleId)\<close>: the recognizer of the rule, as a rule called by name.\<close>

definition parse :: "nat \<Rightarrow> (string \<rightharpoonup> node) \<Rightarrow> (string \<rightharpoonup> characterClass) \<Rightarrow> string
                     \<Rightarrow> string \<Rightarrow> (bool \<times> pstate) option" where
  "parse f rs cls buf name = run f rs cls buf (Name name None) (0, 0)"

subsection \<open>A grammar with a branch that may match the empty string\<close>

text \<open>The rule \<open>R = 'a' / 'b' / 'c'?\<close>, as the builder makes it.\<close>

definition abc_rule :: node where
  "abc_rule =
     Rule ''R'' 0
       (List TypeAlternate
          [Token TypeCharacter ''a'' None, Token TypeCharacter ''b'' None,
           List TypeQuery [Token TypeCharacter ''c'' None]])
       False []"

text \<open>The same rule after the switch optimization.\<close>

definition abc_rule_switched :: node where
  "abc_rule_switched =
     Rule ''R'' 0
       (List TypeUnorderedAlternate
          [wrap_branch (List TypeQuery [Token TypeCharacter ''c'' None]) (cc_add new_class 99),
           wrap_branch (Token TypeCharacter ''b'' None) (cc_add new_class 98),
           wrap_branch (Token TypeCharacter ''a'' None) (cc_add new_class 97)])
       False []"

subsection \<open>A left-recursive rule behind a predicate\<close>

text \<open>
  The rule \<open>R = !'x' / R 'a'\<close>, as the builder makes it, and the rules map that
  \<open>Compile\<close> resolves for the grammar that has this rule only.
\<close>

definition peek_rule :: node where
  "peek_rule =
     Rule ''R'' 0
       (List TypeAlternate
          [List TypePeekNot [Token TypeCharacter ''x'' None],
           List TypeSequence [Name ''R'' None, Token TypeCharacter ''a'' None]])
       False []"

definition peek_rules :: "string \<rightharpoonup> node" where
  "peek_rules = [''R'' \<mapsto> peek_rule]"

text \<open>The rule \<open>R = R 'a'\<close>.\<close>

definition direct_rule :: node where
  "direct_rule =
     Rule ''R'' 0 (List TypeSequence [Name ''R'' None, Token TypeCharacter ''a'' None]) False []"

section \<open>Verification\<close>

subsection \<open>Directives\<close>

lemma dom_defines_New: "dom (defines_map (New inl sw)) = directive_names"
  by (auto simp: New_def directive_names_def split: if_splits)

text \<open>
  C5, as the code has it.  Claimed: \<open>Define\<close> stores the value for \<open>package\<close>,
  \<open>Peg\<close>, \<open>userstate\<close>, \<open>yystype\<close> and \<open>noexport\<close>, and ignores every other key.
  The map that \<open>New\<close> builds has no key \<open>noexport\<close>, and \<open>Define\<close> stores only
  under a key that is present: \<open>Define "noexport" v\<close> is ignored.
\<close>

theorem Define_noexport_ignored:
  "defines_map (Define ''noexport'' ''1'' (New False False)) ''noexport'' = None"
  by (simp add: Define_def New_def)

text \<open>
  C5, amended: on a tree whose directive map has the keys of \<open>New\<close> (\<open>package\<close>,
  \<open>Peg\<close>, \<open>userstate\<close>, \<open>yystype\<close>), \<open>Define k v\<close> sets the entry of \<open>k\<close> to
  \<open>v\<close> when \<open>k\<close> is one of these four and changes nothing else; for any other key,
  \<open>noexport\<close> included, it leaves the tree unchanged.
\<close>

theorem Define_recognized:
  assumes "dom (defines_map t) = directive_names"
  shows "Define k v t =
           (if k \<in> directive_names then t\<lparr>defines_map := (defines_map t)(k \<mapsto> v)\<rparr> else t)"
proof (cases "defines_map t k")
  case None
  then have "k \<notin> dom (defines_map t)" by (simp add: domIff)
  then have "k \<notin> directive_names" using assms by simp
  then show ?thesis using None by (simp add: Define_def)
next
  case (Some old)
  then have "k \<in> dom (defines_map t)" by (simp add: domIff)
  then have "k \<in> directive_names" using assms by simp
  then show ?thesis using Some by (simp add: Define_def)
qed

theorem Define_recognized_witness:
  "dom (defines_map (New False False)) = directive_names \<and>
   Define ''noexport'' ''1'' (New False False) = New False False \<and>
   defines_map (Define ''Peg'' ''Calc'' (New False False)) ''Peg'' = Some ''Calc''"
proof -
  have h: "dom (defines_map (New False False)) = directive_names" by (rule dom_defines_New)
  have a: "Define ''noexport'' ''1'' (New False False) = New False False"
    using Define_recognized [OF h, of "''noexport''" "''1''"] by (simp add: directive_names_def)
  have b: "defines_map (Define ''Peg'' ''Calc'' (New False False)) ''Peg'' = Some ''Calc''"
    using Define_recognized [OF h, of "''Peg''" "''Calc''"] by (simp add: directive_names_def)
  show ?thesis using h a b by simp
qed







subsection \<open>The width of the action field\<close>

lemma bits_loop_acc: "bits_loop n b = b + bits_loop n 0"
proof (induction n arbitrary: b rule: less_induct)
  case (less n)
  show ?case
  proof (cases "n = 0")
    case True
    then show ?thesis by (simp add: bits_loop.simps)
  next
    case False
    then have lt: "n div 2 < n" by simp
    have a: "bits_loop n b = bits_loop (n div 2) (b + 1)"
      using False by (subst bits_loop.simps) simp
    have b: "bits_loop n 0 = bits_loop (n div 2) 1"
      using False by (subst bits_loop.simps) simp
    show ?thesis
      using less.IH[OF lt, of "b + 1"] less.IH[OF lt, of 1] a b by simp
  qed
qed

lemma bits_loop_le: "bits_loop n 0 \<le> k \<longleftrightarrow> n < 2 ^ k"
proof (induction k arbitrary: n)
  case 0
  show ?case
  proof (cases "n = 0")
    case True
    then show ?thesis by (simp add: bits_loop.simps)
  next
    case False
    then have "bits_loop n 0 = 1 + bits_loop (n div 2) 0"
      by (subst bits_loop.simps) (simp add: bits_loop_acc[of _ "Suc 0"])
    then show ?thesis using False by simp
  qed
next
  case (Suc k)
  show ?case
  proof (cases "n = 0")
    case True
    then show ?thesis by (simp add: bits_loop.simps)
  next
    case False
    then have "bits_loop n 0 = 1 + bits_loop (n div 2) 0"
      by (subst bits_loop.simps) (simp add: bits_loop_acc[of _ "Suc 0"])
    then have "bits_loop n 0 \<le> Suc k \<longleftrightarrow> n div 2 < 2 ^ k"
      using Suc.IH[of "n div 2"] by simp
    also have "\<dots> \<longleftrightarrow> n < 2 ^ Suc k"
      by (simp add: less_mult_imp_div_less div_less_iff_less_mult mult.commute)
    finally show ?thesis .
  qed
qed

lemma bits_loop_less: "0 < k \<Longrightarrow> bits_loop n 0 < k \<longleftrightarrow> n < 2 ^ (k - 1)"
  using bits_loop_le[of n "k - 1"] by auto

text \<open>
  C4, as the code has it.  Claimed: a grammar with exactly 255 actions gets the
  width 8, the smallest of 8, 16, 32, 64 whose range holds 255.  The code compares the
  bit length of the count with \<open><\<close>, and 255 has bit length 8: the width is 16.
\<close>

theorem thunk_bits_255: "thunk_bits 255 = 16"
  by code_simp

text \<open>
  C4, amended: for a grammar with at least one action (and a count that a Go
  \<open>int\<close> holds), the thunk declarations are printed with the width \<open>w\<close> that is the
  smallest of 8, 16, 32, 64 with \<open>len(actions) < 2 ^ (w - 1)\<close>: the smallest width
  that is strictly greater than the bit length of the count.
\<close>

theorem thunk_bits_smallest:
  assumes "Actions t \<noteq> []" and "length (Actions t) < 2 ^ 63"
  shows "print_thunks t = thunk_decl (thunk_bits (length (Actions t))) \<and>
         thunk_bits (length (Actions t)) \<in> {8, 16, 32, 64} \<and>
         length (Actions t) < 2 ^ (thunk_bits (length (Actions t)) - 1) \<and>
         (\<forall>w \<in> {8, 16, 32, 64}.
            length (Actions t) < 2 ^ (w - 1) \<longrightarrow> thunk_bits (length (Actions t)) \<le> w)"
proof -
  define n where "n = length (Actions t)"
  have b8: "bits_loop n 0 < 8 \<longleftrightarrow> n < 2 ^ 7" using bits_loop_less[of 8 n] by simp
  have b16: "bits_loop n 0 < 16 \<longleftrightarrow> n < 2 ^ 15" using bits_loop_less[of 16 n] by simp
  have b32: "bits_loop n 0 < 32 \<longleftrightarrow> n < 2 ^ 31" using bits_loop_less[of 32 n] by simp
  have b64: "bits_loop n 0 < 64 \<longleftrightarrow> n < 2 ^ 63" using bits_loop_less[of 64 n] by simp
  have "n < 2 ^ 63" using assms(2) by (simp add: n_def)
  then have "thunk_bits n \<in> {8, 16, 32, 64} \<and> n < 2 ^ (thunk_bits n - 1)
         \<and> (\<forall>w \<in> {8, 16, 32, 64}. n < 2 ^ (w - 1) \<longrightarrow> thunk_bits n \<le> w)"
    using b8 b16 b32 b64 unfolding thunk_bits_def Let_def by auto
  then show ?thesis using assms(1) by (simp add: print_thunks_def n_def)
qed

theorem thunk_bits_smallest_witness:
  "print_thunks ((New False False)\<lparr>Actions := replicate 255 (Action [] 0 [])\<rparr>) = thunk_decl 16"
proof -
  let ?t = "(New False False)\<lparr>Actions := replicate 255 (Action [] 0 [])\<rparr>"
  have len: "length (Actions ?t) = 255" by simp
  have a: "Actions ?t \<noteq> []" using len by (metis list.size(3) zero_neq_numeral)
  have b: "length (Actions ?t) < 2 ^ 63" by (simp only: len) simp
  have c: "thunk_bits 255 = 16" by code_simp
  show ?thesis using thunk_bits_smallest [OF a b] c by (simp only: len)
qed

subsection \<open>The builder's stack\<close>





















subsection \<open>Emission in dry-run mode\<close>

lemma lnPrint_dry: "dryRun w \<Longrightarrow> lnPrint s w = w"
  by (simp add: lnPrint_def)

lemma flags_le_refl: "flags_le fs fs"
  by (simp add: flags_le_def)

lemma flags_le_trans: "flags_le fs gs \<Longrightarrow> flags_le gs hs \<Longrightarrow> flags_le fs hs"
  by (auto simp: flags_le_def)

lemma flags_le_update:
  "i < length fs \<Longrightarrow> fs ! i = (p, q) \<Longrightarrow>
   flags_le fs (fs[i := (if \<not> p then a else p, if \<not> q then b else q)])"
  by (auto simp: flags_le_def nth_list_update)

lemma labels_marked_refl: "labels_marked ls ls"
  by (simp add: labels_marked_def)

lemma labels_marked_trans:
  "labels_marked ls ls' \<Longrightarrow> labels_marked ls' ls'' \<Longrightarrow> labels_marked ls ls''"
  by (auto simp: labels_marked_def)

lemma labels_marked_used:
  "i < length ls \<Longrightarrow> labels_marked ls (ls[i := (ls ! i)\<lparr>used := True\<rparr>])"
  by (auto simp: labels_marked_def nth_list_update)

lemma cJump_dry: "dryRun w \<Longrightarrow> cJump l b s w = (l\<lparr>used := True\<rparr>, w)"
  by (simp add: cJump_def)

lemma save_dry: "dryRun w \<Longrightarrow> save l w = Inr w' \<Longrightarrow> w' = w"
  by (auto simp: save_def lnPrint_dry split: sum.splits prod.splits if_splits)

lemma label_label_dry: "dryRun w \<Longrightarrow> label_label l w = w"
  by (simp add: label_label_def lnPrint_def Let_def)

lemma lrestore_dry:
  assumes "dryRun w" "\<not> savedBlockOpen l"
  shows "lrestore l other savePos saveThPos w =
           (case flags_at w (lid l) of
              Inl e \<Rightarrow> Inl e
            | Inr (pos, thPos) \<Rightarrow>
                Inr (l, w\<lparr>saveFlags := (saveFlags w)
                             [nat (lid l) := (if \<not> pos then savePos else pos,
                                              if \<not> thPos then saveThPos else thPos)]\<rparr>))"
proof -
  have w1: "(case other of None \<Rightarrow> w | Some lab \<Rightarrow> if used lab then label_label lab w else w) = w"
    using assms(1) by (cases other) (simp_all add: label_label_dry)
  show ?thesis
    unfolding lrestore_def Let_def w1
    using assms by (simp add: lnPrint_dry split: sum.splits prod.splits)
qed

lemma restore_dry:
  assumes "dryRun w" "\<not> savedBlockOpen l" "restore l savePos saveThPos w = Inr (l', w')"
  shows "l' = l \<and> (\<exists>fs. w' = w\<lparr>saveFlags := fs\<rparr> \<and> flags_le (saveFlags w) fs)"
proof -
  obtain p q where f: "flags_at w (lid l) = Inr (p, q)"
    and r: "l' = l" "w' = w\<lparr>saveFlags := (saveFlags w)[nat (lid l) := (if \<not> p then savePos else p, if \<not> q then saveThPos else q)]\<rparr>"
    using assms(3) unfolding restore_def lrestore_dry[OF assms(1,2)]
    by (auto split: sum.splits prod.splits)
  from f have "nat (lid l) < length (saveFlags w)" "saveFlags w ! nat (lid l) = (p, q)"
    by (auto simp: flags_at_def split: if_splits)
  then show ?thesis using flags_le_update r by blast
qed

lemma emit_step_dry:
  assumes "emit_step s s'" "dryRun (fst s)" "\<forall>l \<in> set (snd s). \<not> savedBlockOpen l"
  shows "(\<exists>fs. fst s' = (fst s)\<lparr>saveFlags := fs\<rparr> \<and> flags_le (saveFlags (fst s)) fs) \<and>
         labels_marked (snd s) (snd s')"
  using assms
proof (induction rule: emit_step.induct)
  case (step_lnPrint w ls s)
  then show ?case by (auto simp: lnPrint_dry flags_le_refl labels_marked_refl intro!: exI[of _ "saveFlags w"])
next
  case (step_cJump i ls b s w l' w')
  then show ?case
    by (auto simp: cJump_dry flags_le_refl labels_marked_used intro!: exI[of _ "saveFlags w"])
next
  case (step_save i ls w w')
  then show ?case
    by (auto dest!: save_dry simp: flags_le_refl labels_marked_refl intro!: exI[of _ "saveFlags w"])
next
  case (step_restore i ls savePos saveThPos w l' w')
  have nb: "\<not> savedBlockOpen (ls ! i)" using step_restore by simp
  have d: "dryRun w" using step_restore by simp
  from restore_dry[OF d nb step_restore(2)] show ?case
    by (auto simp: labels_marked_refl)
qed

lemma labels_marked_open:
  assumes "labels_marked ls ls'" "\<forall>l \<in> set ls. \<not> savedBlockOpen l"
  shows "\<forall>l \<in> set ls'. \<not> savedBlockOpen l"
proof
  fix l assume "l \<in> set ls'"
  then obtain i where i: "i < length ls'" "l = ls' ! i" by (auto simp: in_set_conv_nth)
  then have "i < length ls" using assms(1) by (simp add: labels_marked_def)
  then have "savedBlockOpen (ls' ! i) = savedBlockOpen (ls ! i)" "ls ! i \<in> set ls"
    using assms(1) by (auto simp: labels_marked_def)
  then show "\<not> savedBlockOpen l" using assms(2) i by simp
qed

text \<open>
  C8: in dry-run mode the emission operations \<open>lnPrint\<close>, \<open>cJump\<close>, \<open>save\<close> and
  \<open>restore\<close> write nothing to the sink.  Over any sequence of them, on labels as
  \<open>newLabel\<close> makes them (no save block open), the writer changes in its
  \<open>saveFlags\<close> only, the labels in their \<open>used\<close> marks only, and every \<open>pos\<close>
  and \<open>thPos\<close> flag that was true stays true.
\<close>

theorem dry_run_frame:
  assumes "emit_step\<^sup>*\<^sup>* (w, ls) (w', ls')" and "dryRun w"
    and "\<forall>l \<in> set ls. \<not> savedBlockOpen l"
  shows "out w' = out w \<and> w' = w\<lparr>saveFlags := saveFlags w'\<rparr> \<and>
         flags_le (saveFlags w) (saveFlags w') \<and> labels_marked ls ls'"
proof -
  have "(\<exists>fs. fst (w', ls') = (fst (w, ls))\<lparr>saveFlags := fs\<rparr> \<and> flags_le (saveFlags (fst (w, ls))) fs) \<and>
        labels_marked (snd (w, ls)) (snd (w', ls'))"
    using assms(1)
  proof (induction rule: rtranclp_induct)
    case base
    show ?case by (auto simp: flags_le_refl labels_marked_refl intro!: exI[of _ "saveFlags w"])
  next
    case (step y z)
    obtain fs where y: "fst y = w\<lparr>saveFlags := fs\<rparr>" "flags_le (saveFlags w) fs" "labels_marked ls (snd y)"
      using step.IH by auto
    have dy: "dryRun (fst y)" using y assms(2) by simp
    have oy: "\<forall>l \<in> set (snd y). \<not> savedBlockOpen l"
      using labels_marked_open[OF y(3) assms(3)] .
    from emit_step_dry[OF step.hyps(2) dy oy] obtain gs where
      z: "fst z = (fst y)\<lparr>saveFlags := gs\<rparr>" "flags_le (saveFlags (fst y)) gs" "labels_marked (snd y) (snd z)"
      by auto
    have "fst z = w\<lparr>saveFlags := gs\<rparr>" using y z by simp
    moreover have "flags_le (saveFlags w) gs" using y z flags_le_trans by simp
    moreover have "labels_marked ls (snd z)" using y z labels_marked_trans by blast
    ultimately show ?case by auto
  qed
  then show ?thesis by auto
qed


theorem dry_run_frame_witness:
  "emit_step\<^sup>*\<^sup>* (snd (newLabel (setDry True newWriter)), [fst (newLabel (setDry True newWriter))])
      ((snd (newLabel (setDry True newWriter)))\<lparr>saveFlags := [(True, False)]\<rparr>,
       [(fst (newLabel (setDry True newWriter)))\<lparr>used := True\<rparr>]) \<and>
   out ((snd (newLabel (setDry True newWriter)))\<lparr>saveFlags := [(True, False)]\<rparr>) = [] \<and>
   flags_le [(False, False)] [(True, False)]"
proof -
  let ?w = "snd (newLabel (setDry True newWriter))"
  let ?l = "fst (newLabel (setDry True newWriter))"
  have w: "?w = \<lparr> out = [], indent = 2, hasCommit = False, nLabels = 1, dryRun = True,
                   savedIndent = 2, saveFlags = [(False, False)] \<rparr>"
    by (simp add: newLabel_def setDry_def newWriter_def Let_def)
  have l: "?l = \<lparr> lid = 0, sid = 0, used = False, savedBlockOpen = False \<rparr>"
    by (simp add: newLabel_def setDry_def newWriter_def Let_def)
  have s1: "emit_step (?w, [?l]) (?w, [?l\<lparr>used := True\<rparr>])"
    using step_cJump[of 0 "[?l]" False "''matchDot()''" ?w "?l\<lparr>used := True\<rparr>" ?w]
    by (simp add: cJump_def w)
  have s2: "emit_step (?w, [?l\<lparr>used := True\<rparr>])
              (?w\<lparr>saveFlags := [(True, False)]\<rparr>, [?l\<lparr>used := True\<rparr>])"
    using step_restore[of 0 "[?l\<lparr>used := True\<rparr>]" True False ?w "?l\<lparr>used := True\<rparr>"
             "?w\<lparr>saveFlags := [(True, False)]\<rparr>"]
    by (simp add: restore_def lrestore_def label_label_def lnPrint_def flags_at_def Let_def w l)
  have steps: "emit_step\<^sup>*\<^sup>* (?w, [?l]) (?w\<lparr>saveFlags := [(True, False)]\<rparr>, [?l\<lparr>used := True\<rparr>])"
    using s1 s2 by (meson rtranclp.rtrancl_into_rtrancl rtranclp.rtrancl_refl)
  have d: "dryRun ?w" by (simp add: w)
  have o: "\<forall>x \<in> set [?l]. \<not> savedBlockOpen x" by (simp add: l)
  from dry_run_frame [OF steps d o] steps show ?thesis by (simp add: w)
qed

subsection \<open>The order of the unordered list\<close>

lemma rewrite_loop_general:
  assumes "\<And>n. (mx < n) = (0 < n \<and> (\<forall>p \<in> set pre. \<not> fst (snd p) \<and> \<not> br_nil p \<longrightarrow> br_len p < n))"
  shows "rewrite_loop (map br_node bs) (map br_prop bs) unordered ordered mx =
           Inr (rev (map br_wrap (head_part pre bs)) @ unordered @ map br_wrap (tail_part pre bs),
                ordered @ map br_node (filter (\<lambda>b. fst (snd b)) bs))"
  using assms
proof (induction bs arbitrary: pre unordered ordered mx)
  case Nil
  then show ?case by simp
next
  case (Cons b bs)
  obtain e i c where b: "b = (e, i, c)" by (cases b) auto
  show ?case
  proof (cases i)
    case True
    have inv: "\<And>n. (mx < n) = (0 < n \<and> (\<forall>p \<in> set (pre @ [b]). \<not> fst (snd p) \<and> \<not> br_nil p \<longrightarrow> br_len p < n))"
      using Cons.prems b True by auto
    show ?thesis
      using Cons.IH[OF inv, of unordered "ordered @ [e]"] b True
      by (simp add: br_node_def br_prop_def)
  next
    case False
    note ni = False
    show ?thesis
    proof (cases "GetType e = TypeNil")
      case True
      have inv: "\<And>n. (mx < n) = (0 < n \<and> (\<forall>p \<in> set (pre @ [b]). \<not> fst (snd p) \<and> \<not> br_nil p \<longrightarrow> br_len p < n))"
        using Cons.prems b True by (auto simp: br_nil_def)
      have tt: "to_tail pre b" using b True by (simp add: to_tail_def br_nil_def)
      show ?thesis
        using Cons.IH[OF inv, of "unordered @ [wrap_branch e c]" ordered] b ni True tt
        by (simp add: br_node_def br_prop_def br_wrap_def Let_def)
    next
      case False
      note nn = False
      show ?thesis
      proof (cases "cc_len c > mx")
        case True
        have tt: "to_tail pre b"
          using Cons.prems[of "cc_len c"] True b by (simp add: to_tail_def br_len_def)
        have inv: "\<And>n. (cc_len c < n) = (0 < n \<and> (\<forall>p \<in> set (pre @ [b]). \<not> fst (snd p) \<and> \<not> br_nil p \<longrightarrow> br_len p < n))"
        proof -
          fix n
          show "(cc_len c < n) = (0 < n \<and> (\<forall>p \<in> set (pre @ [b]). \<not> fst (snd p) \<and> \<not> br_nil p \<longrightarrow> br_len p < n))"
          proof
            assume a: "cc_len c < n"
            then have "mx < n" using True by simp
            then have "0 < n \<and> (\<forall>p \<in> set pre. \<not> fst (snd p) \<and> \<not> br_nil p \<longrightarrow> br_len p < n)"
              using Cons.prems[of n] by simp
            then show "0 < n \<and> (\<forall>p \<in> set (pre @ [b]). \<not> fst (snd p) \<and> \<not> br_nil p \<longrightarrow> br_len p < n)"
              using a b by (auto simp: br_len_def)
          next
            assume "0 < n \<and> (\<forall>p \<in> set (pre @ [b]). \<not> fst (snd p) \<and> \<not> br_nil p \<longrightarrow> br_len p < n)"
            then show "cc_len c < n" using b ni nn by (auto simp: br_len_def br_nil_def)
          qed
        qed
        show ?thesis
          using Cons.IH[OF inv, of "unordered @ [wrap_branch e c]" ordered] b ni nn True tt
          by (simp add: br_node_def br_prop_def br_wrap_def Let_def)
      next
        case False
        have tt: "\<not> to_tail pre b"
          using Cons.prems[of "cc_len c"] False b nn by (auto simp: to_tail_def br_len_def br_nil_def)
        have inv: "\<And>n. (mx < n) = (0 < n \<and> (\<forall>p \<in> set (pre @ [b]). \<not> fst (snd p) \<and> \<not> br_nil p \<longrightarrow> br_len p < n))"
        proof -
          fix n
          show "(mx < n) = (0 < n \<and> (\<forall>p \<in> set (pre @ [b]). \<not> fst (snd p) \<and> \<not> br_nil p \<longrightarrow> br_len p < n))"
          proof
            assume a: "mx < n"
            then have "0 < n \<and> (\<forall>p \<in> set pre. \<not> fst (snd p) \<and> \<not> br_nil p \<longrightarrow> br_len p < n)"
              using Cons.prems[of n] by simp
            moreover have "cc_len c < n" using a False by simp
            ultimately show "0 < n \<and> (\<forall>p \<in> set (pre @ [b]). \<not> fst (snd p) \<and> \<not> br_nil p \<longrightarrow> br_len p < n)"
              using b by (auto simp: br_len_def)
          next
            assume "0 < n \<and> (\<forall>p \<in> set (pre @ [b]). \<not> fst (snd p) \<and> \<not> br_nil p \<longrightarrow> br_len p < n)"
            then have "0 < n \<and> (\<forall>p \<in> set pre. \<not> fst (snd p) \<and> \<not> br_nil p \<longrightarrow> br_len p < n)" by simp
            then show "mx < n" using Cons.prems[of n] by simp
          qed
        qed
        show ?thesis
          using Cons.IH[OF inv, of "wrap_branch e c # unordered" ordered] b ni nn False tt
          by (simp add: br_node_def br_prop_def br_wrap_def Let_def)
      qed
    qed
  qed
qed


text \<open>
  C6, amended: the rewrite takes the branches in source order.  A branch outside
  every intersection is pushed at the tail when it resolves to \<open>Nil\<close>, and also when
  its first-class is not empty and strictly longer than the first-class of every
  earlier such branch that is not \<open>Nil\<close> (the longest so far); every other such
  branch is pushed at the head.  The unordered list is therefore the head-pushed
  branches in reverse source order, then the tail-pushed ones in source order; the
  intersecting branches stay, in source order, in the ordered list.
\<close>

theorem unordered_order:
  "rewrite_loop (map br_node bs) (map br_prop bs) [] [] 0 =
     Inr (rev (map br_wrap (head_part [] bs)) @ map br_wrap (tail_part [] bs),
          map br_node (filter (\<lambda>b. fst (snd b)) bs))"
  using rewrite_loop_general[of 0 "[]" bs "[]" "[]"] by simp


lemma cc_len_samples:
  "cc_len new_class = 0"
  "cc_len (cc_add new_class 97) = 1"
  "cc_len (cc_add new_class 98) = 1"
  "cc_len (cc_add (cc_add new_class 98) 99) = 2"
  "cc_len (cc_add (cc_add new_class 99) 100) = 2"
  "cc_len (cc_add (cc_add (cc_add new_class 100) 101) 102) = 3"
  by code_simp+

theorem unordered_order_witness:
  "rewrite_loop
     [Token TypeCharacter ''a'' None, Token TypeCharacter ''b'' None,
      Token TypeClass ''cd'' None, Token TypeCharacter ''a'' None, nilNode]
     [(True, ClassVal (cc_add new_class 97)), (False, ClassVal (cc_add new_class 98)),
      (False, ClassVal (cc_add (cc_add new_class 99) 100)),
      (False, ClassVal (cc_add new_class 97)), (False, ClassVal new_class)] [] [] 0
   = Inr ([wrap_branch (Token TypeCharacter ''a'' None) (cc_add new_class 97),
           wrap_branch (Token TypeCharacter ''b'' None) (cc_add new_class 98),
           wrap_branch (Token TypeClass ''cd'' None) (cc_add (cc_add new_class 99) 100),
           wrap_branch nilNode new_class],
          [Token TypeCharacter ''a'' None])"
proof -
  let ?bs = "[(Token TypeCharacter ''a'' None, True, cc_add new_class 97),
              (Token TypeCharacter ''b'' None, False, cc_add new_class 98),
              (Token TypeClass ''cd'' None, False, cc_add (cc_add new_class 99) 100),
              (Token TypeCharacter ''a'' None, False, cc_add new_class 97),
              (nilNode, False, new_class)]"
  have h: "head_part [] ?bs = [(Token TypeCharacter ''a'' None, False, cc_add new_class 97)]"
    by (simp add: to_tail_def br_nil_def br_len_def cc_len_samples nilNode_def)
  have t: "tail_part [] ?bs = [(Token TypeCharacter ''b'' None, False, cc_add new_class 98),
              (Token TypeClass ''cd'' None, False, cc_add (cc_add new_class 99) 100),
              (nilNode, False, new_class)]"
    by (simp add: to_tail_def br_nil_def br_len_def cc_len_samples nilNode_def)
  show ?thesis
    using unordered_order [of ?bs] unfolding h t
    by (simp add: br_node_def br_prop_def br_wrap_def)
qed

text \<open>
  C6, as the code has it.  Claimed: the longest-class branch is the last entry
  before the \<open>Nil\<close> branches and all other branches are pushed at the head.  For
  the branches \<open>'a'\<close>, \<open>[bc]\<close>, \<open>[d-f]\<close> that order is \<open>[bc]\<close>, \<open>'a'\<close>, \<open>[d-f]\<close>;
  the code pushes each of them at the tail, being the longest so far, and leaves them
  in source order.
\<close>

theorem unordered_not_spec_order:
  "rewrite_loop
     [Token TypeCharacter ''a'' None, Token TypeClass ''bc'' None, Token TypeClass ''d-f'' None]
     [(False, ClassVal (cc_add new_class 97)),
      (False, ClassVal (cc_add (cc_add new_class 98) 99)),
      (False, ClassVal (cc_add (cc_add (cc_add new_class 100) 101) 102))] [] [] 0
   = Inr ([wrap_branch (Token TypeCharacter ''a'' None) (cc_add new_class 97),
           wrap_branch (Token TypeClass ''bc'' None) (cc_add (cc_add new_class 98) 99),
           wrap_branch (Token TypeClass ''d-f'' None) (cc_add (cc_add (cc_add new_class 100) 101) 102)],
          []) \<and>
   spec_unordered
     [(Token TypeCharacter ''a'' None, False, cc_add new_class 97),
      (Token TypeClass ''bc'' None, False, cc_add (cc_add new_class 98) 99),
      (Token TypeClass ''d-f'' None, False, cc_add (cc_add (cc_add new_class 100) 101) 102)]
   = [wrap_branch (Token TypeClass ''bc'' None) (cc_add (cc_add new_class 98) 99),
      wrap_branch (Token TypeCharacter ''a'' None) (cc_add new_class 97),
      wrap_branch (Token TypeClass ''d-f'' None) (cc_add (cc_add (cc_add new_class 100) 101) 102)]"
  by (simp add: spec_unordered_def br_nil_def br_len_def br_wrap_def cc_len_samples)

subsection \<open>The left-recursion pass\<close>

lemma first_name_diag:
  "first_name e = Some b \<Longrightarrow> checkRecursion rs reached e = Inr (c, d) \<Longrightarrow>
   \<exists>c' d'. checkRecursion rs reached (Name b v) = Inr (c', d') \<and> set d' \<subseteq> set d"
proof (induction e arbitrary: c d rule: first_name.induct)
  case (1 s v')
  then show ?case by auto
next
  case (2 ty x xs)
  from "2.prems"(1) have ty: "ty = TypeSequence \<or> ty = TypeAlternate \<or> ty = TypePlus"
    and fx: "first_name x = Some b" by (auto split: if_splits)
  from ty "2.prems"(2) obtain cx dx where x: "checkRecursion rs reached x = Inr (cx, dx)" and sub: "set dx \<subseteq> set d"
    by (auto split: sum.splits if_splits prod.splits)
  from "2.IH"[OF ty fx x] sub show ?case by blast
qed simp_all

lemma hits_diag:
  "hits rs reached a t \<Longrightarrow> checkRecursion rs reached (Name a v) = Inr (c, d) \<Longrightarrow>
   recursion_msg t \<in> set d"
proof (induction arbitrary: v c d rule: hits.induct)
  case (hit_now rs a n i e h vs reached)
  then show ?case by auto
next
  case (hit_later rs a n i e h vs reached b t)
  have "checkRecursion rs (reached[nat i := True]) (GetExpression (Rule n i e h vs)) = Inr (c, d)"
    using hit_later.prems hit_later.hyps by simp
  from first_name_diag[OF hit_later.hyps(5) this]
  obtain c' d' where "checkRecursion rs (reached[nat i := True]) (Name b None) = Inr (c', d')"
    and "set d' \<subseteq> set d" by blast
  then show ?case using hit_later.IH by blast
qed

lemma wf_nilNode: "wf_node rs nilNode"
  by (simp add: nilNode_def)

lemma check_total:
  shows "wf_env rs (length reached) \<Longrightarrow> wf_node rs n \<Longrightarrow> \<exists>c d. checkRecursion rs reached n = Inr (c, d)"
    and "wf_env rs (length reached) \<Longrightarrow> \<forall>x\<in>set xs. wf_node rs x \<Longrightarrow> \<exists>c d. checkAlternate rs reached xs = Inr (c, d)"
    and "wf_env rs (length reached) \<Longrightarrow> \<forall>x\<in>set ys. wf_node rs x \<Longrightarrow> \<exists>c d. checkSequence rs reached ys = Inr (c, d)"
proof (induction rs reached n and rs reached xs and rs reached ys
       rule: checkRecursion_checkAlternate_checkSequence.induct)
  case (1 rs reached)
  then show ?case by simp
next
  case (2 rs reached n i e h vs)
  then show ?case by simp
next
  case (3 rs reached s v)
  from "3.prems"(2) obtain r where r: "rs s = Some r" by auto
  with "3.prems"(1) obtain n i e h vs where rr: "r = Rule n i e h vs" "0 \<le> i" "nat i < length reached"
      "e \<noteq> GoNil \<longrightarrow> wf_node rs e"
    unfolding wf_env_def by blast
  show ?case
  proof (cases "reached ! nat i")
    case True
    then show ?thesis using r rr by auto
  next
    case False
    have w: "wf_node rs (if e = GoNil then nilNode else e)" using rr wf_nilNode by simp
    have "\<exists>c d. checkRecursion rs (reached[nat i := True]) (if e = GoNil then nilNode else e) = Inr (c, d)"
      using "3.IH"[OF r rr(1) _ False _ w] rr "3.prems"(1) by simp
    then show ?thesis using r rr False by simp
  qed
next
  case (4 rs reached ty s c)
  then show ?case by auto
next
  case (5 rs reached s i r)
  then show ?case by auto
next
  case (6 rs reached ty xs)
  have w: "\<forall>x\<in>set xs. wf_node rs x" using "6.prems"(2) by simp
  show ?case
  proof (cases "ty = TypeAlternate")
    case True
    from "6.IH"(1)[OF True "6.prems"(1) w] show ?thesis using True by simp
  next
    case na: False
    show ?thesis
    proof (cases "ty = TypeSequence")
      case True
      from "6.IH"(2)[OF na True "6.prems"(1) w] show ?thesis using na True by simp
    next
      case ns: False
      show ?thesis
      proof (cases "ty = TypePlus")
        case True
        then obtain x rest where xs: "xs = x # rest" using "6.prems"(2) by (cases xs) auto
        then have "wf_node rs x" using w by simp
        from "6.IH"(3)[OF na ns True xs "6.prems"(1) this] show ?thesis using na ns True xs by simp
      next
        case False
        then show ?thesis using na ns by auto
      qed
    qed
  qed
next
  case (7 rs reached)
  then show ?case by auto
next
  case (8 rs reached x xs)
  have wx: "wf_node rs x" and wxs: "\<forall>y\<in>set xs. wf_node rs y" using "8.prems"(2) by simp_all
  from "8.IH"(1)[OF "8.prems"(1) wx] obtain c d where x: "checkRecursion rs reached x = Inr (c, d)"
    by blast
  show ?case
  proof (cases c)
    case True
    have "\<not> \<not> c" using True by simp
    from "8.IH"(2)[OF x refl this "8.prems"(1) wxs]
    obtain c' d' where "checkAlternate rs reached xs = Inr (c', d')" by blast
    then show ?thesis using x True by simp
  next
    case False
    then show ?thesis using x by auto
  qed
next
  case (9 rs reached)
  then show ?case by auto
next
  case (10 rs reached x xs)
  have wx: "wf_node rs x" and wxs: "\<forall>y\<in>set xs. wf_node rs y" using "10.prems"(2) by simp_all
  from "10.IH"(1)[OF "10.prems"(1) wx] obtain c d where x: "checkRecursion rs reached x = Inr (c, d)"
    by blast
  show ?case
  proof (cases c)
    case False
    from "10.IH"(2)[OF x refl False "10.prems"(1) wxs]
    obtain c' d' where "checkSequence rs reached xs = Inr (c', d')" by blast
    then show ?thesis using x False by simp
  next
    case True
    then show ?thesis using x by auto
  qed
qed

lemma starts_with_det: "starts_with rs a b \<Longrightarrow> starts_with rs a c \<Longrightarrow> b = c"
  by (auto simp: starts_with_def)

lemma wf_rules_key:
  assumes "wf_rules rs ks" "rs a = Some r"
  shows "a \<in> set ks"
proof -
  have "a \<in> dom rs" using assms(2) by (simp add: domI)
  then show ?thesis using assms(1) by (simp add: wf_rules_def)
qed

lemma wf_rules_rule_full:
  assumes "wf_rules rs ks" "rs a = Some r"
  shows "\<exists>i e h vs. r = Rule a i e h vs \<and> 0 \<le> i \<and> nat i < length ks \<and> (e \<noteq> GoNil \<longrightarrow> wf_node rs e)"
proof -
  have k: "a \<in> set ks" using wf_rules_key[OF assms] .
  have "\<forall>k \<in> set ks. \<exists>i e h vs. rs k = Some (Rule k i e h vs) \<and>
          0 \<le> i \<and> nat i < length ks \<and> (e \<noteq> GoNil \<longrightarrow> wf_node rs e)"
    using assms(1) by (simp add: wf_rules_def)
  then obtain i e h vs where "rs a = Some (Rule a i e h vs)" "0 \<le> i" "nat i < length ks"
      "e \<noteq> GoNil \<longrightarrow> wf_node rs e"
    using k by blast
  then show ?thesis using assms(2) by simp
qed

lemma wf_rules_env: "wf_rules rs ks \<Longrightarrow> wf_env rs (length ks)"
  unfolding wf_env_def using wf_rules_rule_full by blast

lemma wf_rules_rule:
  assumes "wf_rules rs ks" "rs a = Some r"
  shows "\<exists>i e h vs. r = Rule a i e h vs \<and> 0 \<le> i \<and> nat i < length ks"
  using wf_rules_rule_full[OF assms] by blast

lemma wf_rules_inj:
  assumes "wf_rules rs ks" "rs a = Some ra" "rs b = Some rb" "GetId ra = GetId rb"
  shows "a = b"
proof -
  have k: "a \<in> set ks" "b \<in> set ks" using wf_rules_key assms by blast+
  have "\<forall>a \<in> set ks. \<forall>b \<in> set ks. GetId (the (rs a)) = GetId (the (rs b)) \<longrightarrow> a = b"
    using assms(1) by (simp add: wf_rules_def)
  then have "GetId (the (rs a)) = GetId (the (rs b)) \<longrightarrow> a = b" using k by blast
  then show ?thesis using assms by simp
qed

lemma cycle_hits:
  assumes wf: "wf_rules rs ks"
    and n: "0 < n" "(starts_with rs ^^ n) R R"
    and least: "\<And>m. 0 < m \<Longrightarrow> m < n \<Longrightarrow> \<not> (starts_with rs ^^ m) R R"
    and rR: "rs R = Some rR"
  shows "p \<le> n \<Longrightarrow> 0 < p \<Longrightarrow> (starts_with rs ^^ p) R x \<Longrightarrow> (starts_with rs ^^ (n - p)) x R \<Longrightarrow>
         length rc = length ks \<Longrightarrow> rc ! nat (GetId rR) \<Longrightarrow>
         (\<forall>y ry. rs y = Some ry \<longrightarrow> rc ! nat (GetId ry) \<longrightarrow> (\<exists>q<p. (starts_with rs ^^ q) R y)) \<Longrightarrow>
         hits rs rc x R"
proof (induction "n - p" arbitrary: p x rc)
  case 0
  then have "p = n" by simp
  then have "x = R" using 0 by simp
  obtain i e h vs where r: "rR = Rule R i e h vs" "0 \<le> i" "nat i < length ks"
    using wf_rules_rule[OF wf rR] by blast
  show ?case
    using hit_now[of rs R R i e h vs rc] rR r 0 \<open>x = R\<close> by simp
next
  case (Suc d)
  then have pn: "p < n" by simp
  then have "n - p = Suc (n - Suc p)" by simp
  with Suc.prems(4) have "(starts_with rs ^^ Suc (n - Suc p)) x R" by simp
  then obtain x' where x': "starts_with rs x x'" "(starts_with rs ^^ (n - Suc p)) x' R"
    by (rule relpowp_Suc_E2)
  from x'(1) obtain rx where rx: "rs x = Some rx" "first_name (GetExpression rx) = Some x'"
    by (auto simp: starts_with_def)
  obtain i e h vs where r: "rx = Rule x i e h vs" "0 \<le> i" "nat i < length ks"
    using wf_rules_rule[OF wf rx(1)] by blast
  have notreached: "\<not> rc ! nat (GetId rx)"
  proof
    assume "rc ! nat (GetId rx)"
    then obtain q where q: "q < p" "(starts_with rs ^^ q) R x" using Suc.prems(7) rx(1) by blast
    have "((starts_with rs ^^ q) OO (starts_with rs ^^ (n - p))) R R"
      using q(2) Suc.prems(4) by (rule relcomppI)
    then have a: "(starts_with rs ^^ (q + (n - p))) R R"
      by (simp add: relpowp_add)
    have b: "0 < q + (n - p)" "q + (n - p) < n" using q(1) pn by auto
    show False using least[OF b] a by simp
  qed
  have step: "(starts_with rs ^^ Suc p) R x'"
    using Suc.prems(3) x'(1) by auto
  have inv: "\<forall>y ry. rs y = Some ry \<longrightarrow> (rc[nat i := True]) ! nat (GetId ry) \<longrightarrow>
               (\<exists>q<Suc p. (starts_with rs ^^ q) R y)"
  proof (intro allI impI)
    fix y ry assume y: "rs y = Some ry" "(rc[nat i := True]) ! nat (GetId ry)"
    obtain j e' h' vs' where ry: "ry = Rule y j e' h' vs'" "0 \<le> j" "nat j < length ks"
      using wf_rules_rule[OF wf y(1)] by blast
    show "\<exists>q<Suc p. (starts_with rs ^^ q) R y"
    proof (cases "j = i")
      case True
      then have "y = x" using wf_rules_inj[OF wf y(1) rx(1)] ry r by simp
      then show ?thesis using Suc.prems(3) by blast
    next
      case False
      then have "nat j \<noteq> nat i" using ry(2) r(2) by simp
      then have "rc ! nat (GetId ry)" using y(2) ry by simp
      then obtain q where "q < p" "(starts_with rs ^^ q) R y" using Suc.prems(7) y(1) by blast
      then show ?thesis using less_Suc_eq by blast
    qed
  qed
  have rR': "(rc[nat i := True]) ! nat (GetId rR)"
    using Suc.prems(6) Suc.prems(5) r(3) by (cases "nat (GetId rR) = nat i") simp_all
  have "hits rs (rc[nat i := True]) x' R"
    using Suc.hyps(1)[of "Suc p" x' "rc[nat i := True]"] Suc.hyps(2) pn step x'(2) Suc.prems(5) rR' inv
    by simp
  then show ?case
    using hit_later[of rs x x i e h vs rc x' R] rx r notreached Suc.prems(5) by simp
qed

lemma rule_as_name:
  "rs k = Some (Rule n i e h vs) \<Longrightarrow>
   checkRecursion rs reached (Rule n i e h vs) = checkRecursion rs reached (Name k v)"
  by simp

lemma check_rules_out:
  assumes "wf_rules rs ks" "length reached = length ks"
  shows "set ks' \<subseteq> set ks \<Longrightarrow>
         \<exists>out. check_rules rs reached ks' = Inr out \<and>
           (\<forall>k \<in> set ks'. \<forall>c d. checkRecursion rs reached (Name k None) = Inr (c, d) \<longrightarrow> set d \<subseteq> set out)"
proof (induction ks')
  case Nil
  then show ?case by simp
next
  case (Cons k ks')
  have kk: "k \<in> set ks" using Cons.prems by simp
  then have "k \<in> dom rs" using assms(1) by (simp add: wf_rules_def)
  then obtain r where r: "rs k = Some r" by blast
  obtain i e h vs where rr: "r = Rule k i e h vs" using wf_rules_rule[OF assms(1) r] by blast
  have env: "wf_env rs (length reached)" using wf_rules_env[OF assms(1)] assms(2) by simp
  have "wf_node rs (Name k None)" using \<open>k \<in> dom rs\<close> by simp
  from check_total(1)[OF env this] obtain c d where cd: "checkRecursion rs reached (Name k None) = Inr (c, d)"
    by blast
  then have cr: "checkRecursion rs reached r = Inr (c, d)"
    using rule_as_name[of rs k k i e h vs reached None] r rr by simp
  from Cons.IH Cons.prems obtain out where
    out: "check_rules rs reached ks' = Inr out"
    "\<forall>k \<in> set ks'. \<forall>c d. checkRecursion rs reached (Name k None) = Inr (c, d) \<longrightarrow> set d \<subseteq> set out"
    by auto
  have "check_rules rs reached (k # ks') = Inr (d @ out)" using r cr out(1) by simp
  moreover have "\<forall>k' \<in> set (k # ks'). \<forall>c' d'. checkRecursion rs reached (Name k' None) = Inr (c', d')
      \<longrightarrow> set d' \<subseteq> set (d @ out)"
    using cd out(2) by auto
  ultimately show ?case by blast
qed

text \<open>
  What the pass does report: a rule \<open>R\<close> that comes back to itself through first
  positions (a name, the first element of a sequence, the first branch of an
  alternate, the operand of \<open>+\<close>), directly or through other rules.  The pass
  returns and the diagnostic for \<open>R\<close> is among the messages written, when the
  rules map is as \<open>Compile\<close> has resolved it (\<open>wf_rules\<close>); \<open>ks\<close> is any order in
  which Go walks the map.
\<close>

lemma first_position_reported:
  assumes "wf_rules rs ks" and "first_recursive rs R"
  shows "\<exists>out. recursion_pass rs ks = Inr out \<and> recursion_msg R \<in> set out"
proof -
  let ?E = "starts_with rs"
  let ?N = "length ks"
  let ?r0 = "replicate ?N False"
  have "\<exists>n. 0 < n \<and> (?E ^^ n) R R"
    using assms(2) by (simp add: first_recursive_def tranclp_power)
  then obtain n where n: "0 < n \<and> (?E ^^ n) R R" and
    least: "\<forall>m<n. \<not> (0 < m \<and> (?E ^^ m) R R)"
    using exists_least_iff[of "\<lambda>n. 0 < n \<and> (?E ^^ n) R R"] by blast
  have least': "\<And>m. 0 < m \<Longrightarrow> m < n \<Longrightarrow> \<not> (?E ^^ m) R R" using least by blast
  have "(?E ^^ Suc (n - 1)) R R" using n by simp
  then obtain b where b: "?E R b" "(?E ^^ (n - 1)) b R" by (rule relpowp_Suc_E2)
  from b(1) obtain rR where rR: "rs R = Some rR" "first_name (GetExpression rR) = Some b"
    by (auto simp: starts_with_def)
  obtain i e h vs where r: "rR = Rule R i e h vs" "0 \<le> i" "nat i < ?N"
    using wf_rules_rule[OF assms(1) rR(1)] by blast
  have Rk: "R \<in> set ks" using wf_rules_key[OF assms(1) rR(1)] .
  from check_rules_out[OF assms(1), of ?r0 ks] obtain out where
    out: "check_rules rs ?r0 ks = Inr out"
    "\<forall>k \<in> set ks. \<forall>c d. checkRecursion rs ?r0 (Name k None) = Inr (c, d) \<longrightarrow> set d \<subseteq> set out"
    by auto
  have env: "wf_env rs (length ?r0)" using wf_rules_env[OF assms(1)] by simp
  have "wf_node rs (Name R None)" using rR(1) by (simp add: domI)
  from check_total(1)[OF env this] obtain c d where cd: "checkRecursion rs ?r0 (Name R None) = Inr (c, d)"
    by blast
  let ?rc = "?r0[nat i := True]"
  have nr: "\<not> ?r0 ! nat i" using r(3) by simp
  have "checkRecursion rs ?rc (GetExpression rR) = Inr (c, d)"
    using cd rR(1) r nr by simp
  from first_name_diag[OF rR(2) this] obtain c' d' where
    cd': "checkRecursion rs ?rc (Name b None) = Inr (c', d')" and sub: "set d' \<subseteq> set d" by blast
  have inv: "\<forall>y ry. rs y = Some ry \<longrightarrow> ?rc ! nat (GetId ry) \<longrightarrow> (\<exists>q<1. (?E ^^ q) R y)"
  proof (intro allI impI)
    fix y ry assume y: "rs y = Some ry" "?rc ! nat (GetId ry)"
    obtain j e' h' vs' where ry: "ry = Rule y j e' h' vs'" "0 \<le> j" "nat j < ?N"
      using wf_rules_rule[OF assms(1) y(1)] by blast
    have "nat j = nat i"
    proof (rule ccontr)
      assume "nat j \<noteq> nat i"
      then have "?rc ! nat j = ?r0 ! nat j" by simp
      then show False using y(2) ry by simp
    qed
    then have "GetId ry = GetId rR" using ry r by simp
    then have "y = R" using wf_rules_inj[OF assms(1) y(1) rR(1)] by simp
    then show "\<exists>q<1. (?E ^^ q) R y" by auto
  qed
  have one: "(?E ^^ 1) R b" using b(1) by auto
  have "hits rs ?rc b R"
    using cycle_hits[OF assms(1) _ _ least' rR(1), of n 1 b ?rc] n one b(2) r inv by simp
  from hits_diag[OF this cd'] have "recursion_msg R \<in> set d'" .
  then have "recursion_msg R \<in> set out" using sub out(2) cd Rk by blast
  then show ?thesis using out(1) by (auto simp: recursion_pass_def)
qed

lemma first_position_example:
  "\<exists>out. recursion_pass
      [''A'' \<mapsto> Rule ''A'' 0 (List TypeSequence [Name ''B'' None, Token TypeCharacter ''x'' None]) False [],
       ''B'' \<mapsto> Rule ''B'' 1 (List TypeSequence [Name ''A'' None, Token TypeCharacter ''y'' None]) False []]
      [''A'', ''B''] = Inr out \<and>
     recursion_msg ''A'' \<in> set out \<and> recursion_msg ''B'' \<in> set out"
proof -
  let ?rs = "[''A'' \<mapsto> Rule ''A'' 0 (List TypeSequence [Name ''B'' None, Token TypeCharacter ''x'' None]) False [],
       ''B'' \<mapsto> Rule ''B'' 1 (List TypeSequence [Name ''A'' None, Token TypeCharacter ''y'' None]) False []]"
  have wf: "wf_rules ?rs [''A'', ''B'']"
    by (auto simp: wf_rules_def)
  have ab: "starts_with ?rs ''A'' ''B''" by (simp add: starts_with_def)
  have ba: "starts_with ?rs ''B'' ''A''" by (simp add: starts_with_def)
  have la: "first_recursive ?rs ''A''"
    unfolding first_recursive_def using ab ba by (rule tranclp.intros(2)[OF tranclp.intros(1)])
  have lb: "first_recursive ?rs ''B''"
    unfolding first_recursive_def using ba ab by (rule tranclp.intros(2)[OF tranclp.intros(1)])
  from first_position_reported [OF wf la] first_position_reported [OF wf lb]
  show ?thesis by auto
qed

lemma peek_built:
  "\<exists>t. run_calls [CAddRule ''R'', CAddString ''x'', CAddPeekNot, CAddName ''R'', CAddString ''a'',
                  CAddSequence, CAddAlternate, CAddExpression] (New False False) = Inr t \<and>
       rule_list t = [peek_rule] \<and>
       rules (resolve_rules [''R''] t) = peek_rules"
  by (simp add: AddRule_def AddString_def AddName_def addList_def addFix_def AddExpression_def
        push_def pop_def New_def Let_def peek_rule_def peek_rules_def resolve_rules_def)

lemma peek_pass: "recursion_pass peek_rules [''R''] = Inr []"
  by (simp add: recursion_pass_def peek_rules_def peek_rule_def)

lemma direct_pass:
  "recursion_pass [''R'' \<mapsto> direct_rule] [''R'']
     = Inr [''possible infinite left recursion in rule '' @ [CHR 0x27] @ ''R'' @ [CHR 0x27, CHR 0x0A]]"
  by (simp add: recursion_pass_def direct_rule_def recursion_msg_def sq_def nl_def)

lemma peek_rules_R: "peek_rules ''R'' = Some peek_rule"
  by (simp add: peek_rules_def)

lemma peek_run_step:
  "run g peek_rules Map.empty ''x'' (Name ''R'' None) (0, 0) = None \<Longrightarrow>
   run (Suc (Suc (Suc (Suc (Suc (Suc g)))))) peek_rules Map.empty ''x'' (Name ''R'' None) (0, 0)
     = None"
  by (simp add: peek_rules_R peek_rule_def char_of_token_def nilNode_def)

lemma peek_run_short:
  "f < 6 \<Longrightarrow> run f peek_rules Map.empty ''x'' (Name ''R'' None) (0, 0) = None"
proof -
  assume "f < 6"
  then consider "f = 0" | "f = Suc 0" | "f = Suc (Suc 0)" | "f = Suc (Suc (Suc 0))"
    | "f = Suc (Suc (Suc (Suc 0)))" | "f = Suc (Suc (Suc (Suc (Suc 0))))"
    by linarith
  then show ?thesis
    by cases (simp_all add: peek_rules_R peek_rule_def char_of_token_def nilNode_def)
qed

lemma peek_run_None:
  "run f peek_rules Map.empty ''x'' (Name ''R'' None) (0, 0) = None"
proof (induction f rule: less_induct)
  case (less f)
  show ?case
  proof (cases "f < 6")
    case True
    then show ?thesis by (rule peek_run_short)
  next
    case False
    then have f: "f = Suc (Suc (Suc (Suc (Suc (Suc (f - 6))))))" by linarith
    have ih: "run (f - 6) peek_rules Map.empty ''x'' (Name ''R'' None) (0, 0) = None"
      using False by (intro less.IH) linarith
    show ?thesis by (subst f) (rule peek_run_step[OF ih])
  qed
qed

lemma peek_parse_y:
  "parse 10 peek_rules Map.empty ''y'' ''R'' = Some (True, 0, 0)"
  by (simp add: parse_def eval_nat_numeral peek_rules_R peek_rule_def char_of_token_def nilNode_def)

text \<open>
  C3 fails on the code.  The rule \<open>R = !'x' / R 'a'\<close> is left-recursive: its second
  branch starts with \<open>R\<close>, and on the input \<open>x\<close> the first branch fails, the second
  calls \<open>R\<close> at the same position, and so on without end (no counter is enough for
  the recognizer to return; on the input \<open>y\<close> it returns at once).  The pass
  writes no diagnostic for it: the loop over the branches of an alternate returns at
  the first branch that does not consume, here \<open>!'x'\<close>, and never enters the
  second.  For \<open>R = R 'a'\<close> the diagnostic is written.
\<close>

theorem left_recursion_missed:
  "(\<exists>t. run_calls [CAddRule ''R'', CAddString ''x'', CAddPeekNot, CAddName ''R'', CAddString ''a'',
                   CAddSequence, CAddAlternate, CAddExpression] (New False False) = Inr t \<and>
        rule_list t = [peek_rule] \<and>
        rules (resolve_rules [''R''] t) = peek_rules) \<and>
   recursion_pass peek_rules [''R''] = Inr [] \<and>
   (\<forall>f. parse f peek_rules Map.empty ''x'' ''R'' = None) \<and>
   parse 10 peek_rules Map.empty ''y'' ''R'' = Some (True, 0, 0) \<and>
   recursion_pass [''R'' \<mapsto> direct_rule] [''R'']
     = Inr [''possible infinite left recursion in rule '' @ [CHR 0x27] @ ''R'' @ [CHR 0x27, CHR 0x0A]]"
  using peek_built peek_pass peek_run_None peek_parse_y direct_pass
  by (simp add: parse_def)

subsection \<open>Printing and re-parsing a class\<close>

lemma class_hat_a: "parse_class ''a^'' = Inr (cc_add (cc_add new_class 97) 94)"
  by code_simp

lemma class_hat_a_String: "cc_String (cc_add (cc_add new_class 97) 94) = ''^a''"
  by code_simp

lemma class_not_a: "parse_class ''^a'' = Inr (cc_complement (cc_add new_class 97))"
  by code_simp

lemma class_hat_a_differs: "cc_add (cc_add new_class 97) 94 \<noteq> cc_complement (cc_add new_class 97)"
  by code_simp

text \<open>
  C1 fails on the code.  The class text \<open>a^\<close> resolves to the class of the two
  bytes \<open>^\<close> and \<open>a\<close>; \<open>String\<close> prints it in ascending order as \<open>^a\<close>, since
  \<open>^\<close> has no escape; the parser reads the leading \<open>^\<close> as negation and returns
  the complement of the class of \<open>a\<close>, another bitmap.
\<close>

theorem class_print_parse_differs:
  "parse_class ''a^'' = Inr (cc_add (cc_add new_class 97) 94) \<and>
   cc_String (cc_add (cc_add new_class 97) 94) = ''^a'' \<and>
   parse_class (cc_String (cc_add (cc_add new_class 97) 94))
     = Inr (cc_complement (cc_add new_class 97)) \<and>
   cc_add (cc_add new_class 97) 94 \<noteq> cc_complement (cc_add new_class 97)"
  using class_hat_a class_hat_a_String class_not_a class_hat_a_differs by simp

subsection \<open>Rules that are used and not defined\<close>










subsection \<open>The switch optimization and the language accepted\<close>

lemma abc_samples:
  "cc_len (cc_add new_class 97) = 1"
  "cc_len (cc_add new_class 98) = 1"
  "cc_len (cc_add new_class 99) = 1"
  "cc_intersects (cc_add new_class 97) (cc_add new_class 98) = False"
  "cc_intersects (cc_add new_class 97) (cc_add new_class 99) = False"
  "cc_intersects (cc_add new_class 98) (cc_add new_class 99) = False"
  "cc_has (cc_add new_class 99) 120 = False"
  "cc_has (cc_add new_class 98) 120 = False"
  by code_simp+

lemma abc_run:
  "\<exists>t. run_calls [CAddRule ''R'', CAddString ''a'', CAddString ''b'', CAddAlternate,
                  CAddString ''c'', CAddQuery, CAddAlternate, CAddExpression] (New False True)
          = Inr t \<and> rule_list t = [abc_rule]"
  by (simp add: AddRule_def AddString_def addList_def addFix_def AddExpression_def push_def pop_def
        New_def Let_def abc_rule_def)

lemma abc_optimized:
  "optimizeAlternates 4 {} Map.empty abc_rule ([''R'' \<mapsto> abc_rule], [(False, ores_zero)])
     = Inr ((False, False, False,
             ClassVal (cc_union (cc_union (cc_union new_class (cc_add new_class 97))
                                   (cc_add new_class 98)) (cc_add new_class 99))),
            abc_rule_switched,
            ([''R'' \<mapsto> abc_rule_switched],
             [(True, False, False, False,
               ClassVal (cc_union (cc_union (cc_union new_class (cc_add new_class 97))
                                     (cc_add new_class 98)) (cc_add new_class 99)))]))"
  by (simp add: eval_nat_numeral abc_rule_def abc_rule_switched_def literal_class_def byte_of_def
        bslash_def nilNode_def rewrite_alternate_def abc_samples Let_def ores_zero_def)

lemma abc_parse: "parse 10 [''R'' \<mapsto> abc_rule] Map.empty ''x'' ''R'' = Some (True, 0, 0)"
  by (simp add: parse_def eval_nat_numeral abc_rule_def char_of_token_def matchChar_def match_fail_def
        nilNode_def)

lemma abc_parse_switched:
  "parse 10 [''R'' \<mapsto> abc_rule_switched] Map.empty ''x'' ''R'' = Some (False, 0, 0)"
  by (simp add: parse_def eval_nat_numeral abc_rule_switched_def wrap_branch_def char_of_token_def
        matchChar_def match_fail_def nilNode_def byte_of_def abc_samples)

text \<open>
  C2 fails on the code.  For the grammar \<open>R = 'a' / 'b' / 'c'?\<close> the three
  first-classes are disjoint, so the optimization turns the alternate into an
  unordered one whose entries are \<open>'c'?\<close>, \<open>'b'\<close>, \<open>'a'\<close>; the last entry is the
  \<open>default\<close> of the emitted switch.  On the input \<open>x\<close> the recognizer emitted
  without the optimization accepts (the branch \<open>'c'?\<close> matches the empty string),
  the one emitted with it runs the default \<open>'a'\<close> and rejects.
\<close>

theorem switch_changes_acceptance:
  "optimizeAlternates 4 {} Map.empty abc_rule ([''R'' \<mapsto> abc_rule], [(False, ores_zero)])
     = Inr ((False, False, False,
             ClassVal (cc_union (cc_union (cc_union new_class (cc_add new_class 97))
                                   (cc_add new_class 98)) (cc_add new_class 99))),
            abc_rule_switched,
            ([''R'' \<mapsto> abc_rule_switched],
             [(True, False, False, False,
               ClassVal (cc_union (cc_union (cc_union new_class (cc_add new_class 97))
                                     (cc_add new_class 98)) (cc_add new_class 99)))])) \<and>
   parse 10 [''R'' \<mapsto> abc_rule] Map.empty ''x'' ''R'' = Some (True, 0, 0) \<and>
   parse 10 [''R'' \<mapsto> abc_rule_switched] Map.empty ''x'' ''R'' = Some (False, 0, 0)"
  using abc_optimized abc_parse abc_parse_switched by simp

end
